theory Spec2Isabelle
  imports Main "HOL-Library.Char_ord" "HOL-Library.List_Lexorder"
begin

section \<open>Characters and the regular expressions of Relay.cpp\<close>

text \<open>
  \<^verbatim>\<open>::toupper\<close> in the "C" locale: the letters a..z go to A..Z, every other
  character is left alone.
\<close>

definition toupper :: "char \<Rightarrow> char" where
  "toupper c =
     (if 97 \<le> (of_char c :: nat) \<and> (of_char c :: nat) \<le> 122
      then char_of ((of_char c :: nat) - 32) else c)"

text \<open>
  The character classes of the patterns, all compiled with \<^verbatim>\<open>regex::icase\<close>:
  \<^verbatim>\<open>T_SERNUM "[A-Z0-9]{5}"\<close>,
  \<^verbatim>\<open>T_ALIAS_NAME "[_#~@A-Z0-9][-_#~@A-Z0-9]*"\<close>,
  \<^verbatim>\<open>T_LOGIC_BITS "[0L1HX_.]"\<close>, \<^verbatim>\<open>T_CHANNELS "[1-8]"\<close>.
\<close>

definition sernum_char :: "char \<Rightarrow> bool" where
  "sernum_char c =
     (let n = (of_char c :: nat)
      in (48 \<le> n \<and> n \<le> 57) \<or> (65 \<le> n \<and> n \<le> 90) \<or> (97 \<le> n \<and> n \<le> 122))"

definition alias_first_char :: "char \<Rightarrow> bool" where
  "alias_first_char c =
     (c = CHR ''_'' \<or> c = CHR ''#'' \<or> c = CHR ''~'' \<or> c = CHR ''@'' \<or> sernum_char c)"

definition alias_char :: "char \<Rightarrow> bool" where
  "alias_char c = (c = CHR ''-'' \<or> alias_first_char c)"

definition logic_bit_char :: "char \<Rightarrow> bool" where
  "logic_bit_char c =
     (toupper c = CHR ''0'' \<or> toupper c = CHR ''L'' \<or> toupper c = CHR ''1'' \<or>
      toupper c = CHR ''H'' \<or> toupper c = CHR ''X'' \<or> c = CHR ''_'' \<or> c = CHR ''.'')"

definition channel_char :: "char \<Rightarrow> bool" where
  "channel_char c = (49 \<le> (of_char c :: nat) \<and> (of_char c :: nat) \<le> 56)"

text \<open>\<^verbatim>\<open>regex_sernum("^(" T_SERNUM ")$", icase)\<close> under \<^verbatim>\<open>regex_match\<close>.\<close>

definition regex_sernum :: "string \<Rightarrow> bool" where
  "regex_sernum s = (length s = 5 \<and> list_all sernum_char s)"

text \<open>\<^verbatim>\<open>regex_alias_name("^(" T_ALIAS_NAME ")$", icase)\<close> under \<^verbatim>\<open>regex_match\<close>.\<close>

definition regex_alias_name :: "string \<Rightarrow> bool" where
  "regex_alias_name s =
     (case s of [] \<Rightarrow> False | c # cs \<Rightarrow> alias_first_char c \<and> list_all alias_char cs)"

text \<open>
  \<^verbatim>\<open>regex_alias_registry("(" T_ALIAS_NAME ")[=:](" T_SERNUM "),?", icase)\<close> is used
  with \<^verbatim>\<open>regex_search\<close>, which returns the leftmost match. At a fixed start the
  match is forced: the greedy star takes the whole run of alias characters (a shorter
  run would be followed by an alias character, never by \<^verbatim>\<open>=\<close> or \<^verbatim>\<open>:\<close>), the
  serial number is the next five characters, and the greedy \<^verbatim>\<open>,?\<close> takes a comma
  when one follows. The result is capture 1, capture 2 and the suffix after the match.
\<close>

definition match_alias_registry :: "string \<Rightarrow> (string \<times> string \<times> string) option" where
  "match_alias_registry s =
     (case s of
        [] \<Rightarrow> None
      | c # cs \<Rightarrow>
          if alias_first_char c then
            (case dropWhile alias_char cs of
               [] \<Rightarrow> None
             | d # t \<Rightarrow>
                 if (d = CHR ''='' \<or> d = CHR '':'') \<and> 5 \<le> length t \<and>
                    list_all sernum_char (take 5 t)
                 then Some (c # takeWhile alias_char cs, take 5 t,
                            (case drop 5 t of
                               [] \<Rightarrow> []
                             | e # u \<Rightarrow> if e = CHR '','' then u else e # u))
                 else None)
          else None)"

fun regex_search_alias_registry :: "string \<Rightarrow> (string \<times> string \<times> string) option" where
  "regex_search_alias_registry [] = None"
| "regex_search_alias_registry (c # cs) =
     (case match_alias_registry (c # cs) of
        Some m \<Rightarrow> Some m
      | None \<Rightarrow> regex_search_alias_registry cs)"

lemma drop_eq_Cons_length: "drop k t = e # u \<Longrightarrow> Suc (length u) = length t - k"
  by (drule arg_cong [where f = length]) simp

lemma match_alias_registry_suffix:
  "match_alias_registry s = Some (a, n, suf) \<Longrightarrow> length suf < length s"
proof -
  assume m: "match_alias_registry s = Some (a, n, suf)"
  then have "\<exists>c cs d t. s = c # cs \<and> dropWhile alias_char cs = d # t \<and>
               length suf \<le> length (drop 5 t)"
    by (auto simp: match_alias_registry_def split: list.splits if_splits
          dest!: drop_eq_Cons_length)
  then obtain c cs d t where s: "s = c # cs" and r: "dropWhile alias_char cs = d # t"
    and suf: "length suf \<le> length (drop 5 t)"
    by blast
  have "length (dropWhile alias_char cs) \<le> length cs"
    by (rule length_dropWhile_le)
  with r have "Suc (length t) \<le> length cs" by simp
  with suf s show ?thesis by simp
qed

lemma regex_search_alias_registry_suffix:
  "regex_search_alias_registry s = Some (a, n, suf) \<Longrightarrow> length suf < length s"
proof (induction s)
  case Nil
  then show ?case by simp
next
  case (Cons c cs)
  show ?case
  proof (cases "match_alias_registry (c # cs)")
    case None
    with Cons show ?thesis by fastforce
  next
    case (Some m)
    with Cons.prems have "match_alias_registry (c # cs) = Some (a, n, suf)" by simp
    then show ?thesis by (rule match_alias_registry_suffix)
  qed
qed

section \<open>EasyRegistry.cpp: the persisted string setting\<close>

text \<open>
  The value \<^verbatim>\<open>HKCU\SOFTWARE\WWES\Relay\Aliases\<close>: its content when it exists,
  whether \<^verbatim>\<open>RegCreateKeyW\<close> and \<^verbatim>\<open>RegSetValueExW\<close> succeed, and the values
  handed to \<^verbatim>\<open>RegSetValueExW\<close> so far, most recent first.
\<close>

record registry =
  reg_value :: "string option"
  reg_writable :: bool
  reg_writes :: "string list"

definition MAX_SZ_RESULT_LENGTH :: nat where
  "MAX_SZ_RESULT_LENGTH = 255"

text \<open>
  \<^verbatim>\<open>RegGetValueW\<close> is given a buffer of \<^verbatim>\<open>MAX_SZ_RESULT_LENGTH * sizeof(wchar_t)\<close>
  bytes, and the size of a string value counts its terminating null: a value of
  \<^verbatim>\<open>MAX_SZ_RESULT_LENGTH\<close> characters or more does not fit and the call fails
  (\<^verbatim>\<open>ERROR_MORE_DATA\<close>), as it does when the value is absent.
\<close>

definition RegGetValueW :: "registry \<Rightarrow> string option" where
  "RegGetValueW reg =
     (case reg_value reg of
        None \<Rightarrow> None
      | Some v \<Rightarrow> if length v + 1 \<le> MAX_SZ_RESULT_LENGTH then Some v else None)"

text \<open>
  \<^verbatim>\<open>mbstowcs_s(&nconv, szwResult, szValue, MAX_SZ_RESULT_LENGTH)\<close> converts at most
  \<^verbatim>\<open>MAX_SZ_RESULT_LENGTH\<close> characters into the buffer of
  \<^verbatim>\<open>MAX_SZ_RESULT_LENGTH + 1\<close>; \<^verbatim>\<open>RegSetValueExW\<close> then stores that string.
\<close>

definition RegSetValueExW :: "registry \<Rightarrow> string \<Rightarrow> registry" where
  "RegSetValueExW reg v =
     reg\<lparr>reg_value := Some (take MAX_SZ_RESULT_LENGTH v),
         reg_writes := take MAX_SZ_RESULT_LENGTH v # reg_writes reg\<rparr>"

text \<open>
  \<^verbatim>\<open>ReadRegSZ(key, setting, result, default)\<close>: the value when it can be read;
  otherwise the default is written and returned; when that fails too, the result is
  false and the empty string. Returns the flag, the string and the registry.
\<close>

definition ReadRegSZ :: "registry \<Rightarrow> string \<Rightarrow> bool \<times> string \<times> registry" where
  "ReadRegSZ reg szDefault =
     (case RegGetValueW reg of
        Some v \<Rightarrow> (True, v, reg)
      | None \<Rightarrow>
          if reg_writable reg
          then (True, take MAX_SZ_RESULT_LENGTH szDefault, RegSetValueExW reg szDefault)
          else (False, [], reg))"

definition WriteRegSZ :: "registry \<Rightarrow> string \<Rightarrow> bool \<times> registry" where
  "WriteRegSZ reg szValue =
     (if reg_writable reg then (True, RegSetValueExW reg szValue) else (False, reg))"

section \<open>The alias functions of Relay.cpp\<close>

text \<open>
  The loop of \<^verbatim>\<open>RemoveAlias\<close>: \<^verbatim>\<open>strIterList\<close> is searched entry by entry; an
  entry whose alias is the one to remove sets \<^verbatim>\<open>bFound\<close>, every other entry is
  appended to \<^verbatim>\<open>strAliasList\<close> as \<^verbatim>\<open>alias=sernum\<close>, after a comma when the
  list is not empty.
\<close>

function RemoveAlias_loop :: "string \<Rightarrow> string \<Rightarrow> string \<Rightarrow> bool \<Rightarrow> string \<times> bool" where
  "RemoveAlias_loop alias strIterList strAliasList bFound =
     (case regex_search_alias_registry strIterList of
        None \<Rightarrow> (strAliasList, bFound)
      | Some (m1, m2, suffix) \<Rightarrow>
          if alias = m1 then RemoveAlias_loop alias suffix strAliasList True
          else RemoveAlias_loop alias suffix
                 ((if strAliasList \<noteq> [] then strAliasList @ '','' else strAliasList)
                    @ m1 @ ''='' @ m2)
                 bFound)"
  by pat_completeness auto
termination
  by (relation "measure (\<lambda>(alias, strIterList, strAliasList, bFound). length strIterList)")
     (auto dest: regex_search_alias_registry_suffix)

declare RemoveAlias_loop.simps [simp del]

definition RemoveAlias :: "registry \<Rightarrow> string \<Rightarrow> registry" where
  "RemoveAlias reg alias0 =
     (let alias = map toupper alias0
      in case ReadRegSZ reg [] of
           (ok, strAliasList, reg1) \<Rightarrow>
             if ok then
               (case RemoveAlias_loop alias strAliasList [] False of
                  (strAliasList', bFound) \<Rightarrow>
                    if bFound then snd (WriteRegSZ reg1 strAliasList') else reg1)
             else reg1)"

definition AssignAlias :: "registry \<Rightarrow> string \<Rightarrow> string \<Rightarrow> registry" where
  "AssignAlias reg alias0 sernum0 =
     (let alias = map toupper alias0;
          sernum = map toupper sernum0;
          reg1 = RemoveAlias reg alias
      in case ReadRegSZ reg1 [] of
           (ok, strAliasList, reg2) \<Rightarrow>
             snd (WriteRegSZ reg2
                    (if ok
                     then alias @ ''='' @ sernum @ (if strAliasList = [] then [] else '','')
                            @ strAliasList
                     else strAliasList)))"

text \<open>
  The loop of \<^verbatim>\<open>ListAlias\<close>, returning \<^verbatim>\<open>bFound\<close> and the text sent to
  \<^verbatim>\<open>cout\<close>; \<^verbatim>\<open>endl\<close> is the newline character.
\<close>

function ListAlias_loop :: "string \<Rightarrow> bool \<Rightarrow> bool \<Rightarrow> string \<Rightarrow> bool \<times> string" where
  "ListAlias_loop strAliasList bFirst bFound out =
     (case regex_search_alias_registry strAliasList of
        None \<Rightarrow> (bFound, out)
      | Some (m1, m2, suffix) \<Rightarrow>
          ListAlias_loop suffix False True
            ((if bFirst then out else out @ [CHR 0x0A]) @ m1 @ ''='' @ m2))"
  by pat_completeness auto
termination
  by (relation "measure (\<lambda>(strAliasList, bFirst, bFound, out). length strAliasList)")
     (auto dest: regex_search_alias_registry_suffix)

declare ListAlias_loop.simps [simp del]

definition ListAlias :: "registry \<Rightarrow> string \<times> registry" where
  "ListAlias reg =
     (case ReadRegSZ reg [] of
        (ok, strAliasList, reg1) \<Rightarrow>
          (case (if ok then ListAlias_loop strAliasList True False [] else (False, [])) of
             (bFound, out) \<Rightarrow>
               ((if bFound then out else out @ ''No aliases defined'' @ [CHR 0x0A]), reg1)))"

text \<open>
  The loop of \<^verbatim>\<open>GetAliasSernum\<close>: the serial number of the first entry whose alias
  is the token, if there is one.
\<close>

function GetAliasSernum_loop :: "string \<Rightarrow> string \<Rightarrow> string option" where
  "GetAliasSernum_loop alias_or_sernum strAliasList =
     (case regex_search_alias_registry strAliasList of
        None \<Rightarrow> None
      | Some (m1, m2, suffix) \<Rightarrow>
          if alias_or_sernum = m1 then Some m2
          else GetAliasSernum_loop alias_or_sernum suffix)"
  by pat_completeness auto
termination
  by (relation "measure (\<lambda>(alias_or_sernum, strAliasList). length strAliasList)")
     (auto dest: regex_search_alias_registry_suffix)

declare GetAliasSernum_loop.simps [simp del]

definition GetAliasSernum :: "registry \<Rightarrow> string \<Rightarrow> string \<times> registry" where
  "GetAliasSernum reg alias_or_sernum0 =
     (let alias_or_sernum = map toupper alias_or_sernum0
      in case ReadRegSZ reg [] of
           (ok, strAliasList, reg1) \<Rightarrow>
             if ok then
               (case GetAliasSernum_loop alias_or_sernum strAliasList of
                  Some sernum \<Rightarrow> (sernum, reg1)
                | None \<Rightarrow>
                    ((if regex_sernum alias_or_sernum then alias_or_sernum else []), reg1))
             else ((if regex_sernum alias_or_sernum then alias_or_sernum else []), reg1))"

section \<open>The relay driver boundary\<close>

text \<open>
  The calls into \<^verbatim>\<open>usb_relay_device.dll\<close>, recorded in the order they are made,
  and what the driver answers: whether \<^verbatim>\<open>usb_relay_init\<close> returns 0, the serial
  number and type of every enumerated device, and for every serial number that
  \<^verbatim>\<open>usb_relay_device_open_with_serial_number\<close> opens, its status word.
\<close>

datatype usb_call =
    usb_relay_init
  | usb_relay_exit
  | usb_relay_device_enumerate
  | usb_relay_device_free_enumerate
  | usb_relay_device_open_with_serial_number string
  | usb_relay_device_close
  | usb_relay_device_open_one_relay_channel int
  | usb_relay_device_close_one_relay_channel int
  | usb_relay_device_open_all_relay_channel
  | usb_relay_device_close_all_relay_channel
  | usb_relay_device_get_status

record driver =
  drv_init_ok :: bool
  drv_devices :: "(string \<times> int) list"
  drv_handles :: "(string \<times> nat) list"

text \<open>What a run changes: the registry, the driver calls, and the two output streams.\<close>

record world =
  w_reg :: registry
  w_calls :: "usb_call list"
  w_cout :: string
  w_cerr :: string

section \<open>Relay.cpp: types and support functions\<close>

datatype LOGIC = LOGIC_H | LOGIC_L | LOGIC_X

datatype ERROR_CODES = NONE | SYNTAX | NO_DEVICES | BAD_SERNUM | NO_DRIVER_INIT | INVALID_CHANNEL

fun error_int :: "ERROR_CODES \<Rightarrow> int" where
  "error_int NONE = 0"
| "error_int SYNTAX = - 1"
| "error_int NO_DEVICES = - 2"
| "error_int BAD_SERNUM = - 3"
| "error_int NO_DRIVER_INIT = - 4"
| "error_int INVALID_CHANNEL = - 5"

record channels_t =
  sn :: string
  channels :: int

record queries_t =
  query_sn :: string
  query_q :: string

text \<open>
  \<^verbatim>\<open>std::map\<close> as a list of pairs kept in key order: \<^verbatim>\<open>m[k] = v\<close> replaces or
  inserts, iteration follows the list. \<^verbatim>\<open>MODULE\<close> is keyed by the channel character,
  \<^verbatim>\<open>MODULE_SET\<close> by the serial number.
\<close>

fun map_assign :: "'k::linorder \<Rightarrow> 'v \<Rightarrow> ('k \<times> 'v) list \<Rightarrow> ('k \<times> 'v) list" where
  "map_assign k v [] = [(k, v)]"
| "map_assign k v ((k', v') # m) =
     (if k < k' then (k, v) # (k', v') # m
      else if k = k' then (k, v) # m
      else (k', v') # map_assign k v m)"

type_synonym MODULE = "(char \<times> LOGIC) list"
type_synonym MODULE_SET = "(string \<times> MODULE) list"

text \<open>The command-line patterns of \<^verbatim>\<open>main\<close>, each under \<^verbatim>\<open>regex_match\<close>.\<close>

definition regex_help :: "string \<Rightarrow> bool" where
  "regex_help s =
     (let t = (case s of
                 [] \<Rightarrow> []
               | c # cs \<Rightarrow> if c = CHR ''/'' \<or> c = CHR ''-'' then cs else c # cs)
      in map toupper t \<in> set [''H'', ''HELP'', ''?''])"

definition regex_enumerate :: "string \<Rightarrow> bool" where
  "regex_enumerate s = (map toupper s \<in> set [''ENUM'', ''ENUMERATE'', ''L'', ''LIST''])"

definition regex_set :: "string \<Rightarrow> bool" where
  "regex_set s = (map toupper s = ''SET'')"

definition regex_query :: "string \<Rightarrow> bool" where
  "regex_query s = (map toupper s \<in> set [''Q'', ''QUERY''])"

definition regex_alias :: "string \<Rightarrow> bool" where
  "regex_alias s = (map toupper s = ''ALIAS'')"

definition regex_on_vals :: "string \<Rightarrow> bool" where
  "regex_on_vals s = (map toupper s \<in> set [''ON'', ''1'', ''H'', ''NO''])"

definition regex_off_vals :: "string \<Rightarrow> bool" where
  "regex_off_vals s = (map toupper s \<in> set [''OFF'', ''0'', ''L'', ''NC''])"

text \<open>
  \<^verbatim>\<open>regex_sernum_pattern("^(" T_ALIAS_NAME "):(" T_LOGIC_BITS "{1,8})$")\<close>: the colon
  is no alias character, so capture 1 is the run of alias characters before it.
\<close>

definition regex_sernum_pattern :: "string \<Rightarrow> (string \<times> string) option" where
  "regex_sernum_pattern s =
     (case dropWhile alias_char s of
        [] \<Rightarrow> None
      | d # p \<Rightarrow>
          if d = CHR '':'' \<and> regex_alias_name (takeWhile alias_char s) \<and>
             1 \<le> length p \<and> length p \<le> 8 \<and> list_all logic_bit_char p
          then Some (takeWhile alias_char s, p) else None)"

text \<open>\<^verbatim>\<open>regex_ch_set("^(" T_CHANNELS ")=(" T_LOGICS ")$")\<close>.\<close>

definition regex_ch_set :: "string \<Rightarrow> (string \<times> string) option" where
  "regex_ch_set s =
     (case s of
        c # d # p \<Rightarrow>
          if channel_char c \<and> d = CHR ''='' \<and> (regex_on_vals p \<or> regex_off_vals p)
          then Some ([c], p) else None
      | _ \<Rightarrow> None)"

text \<open>
  \<^verbatim>\<open>regex_query_chlist("^(" T_ALIAS_NAME ")[@:](" T_CHANNELS "{1,8})$")\<close>: \<^verbatim>\<open>@\<close> is
  an alias character, so the match backtracks; capture 2 can only be the run of
  channel digits that ends the token, and the separator the character before it.
\<close>

definition regex_query_chlist :: "string \<Rightarrow> (string \<times> string) option" where
  "regex_query_chlist s =
     (case dropWhile channel_char (rev s) of
        [] \<Rightarrow> None
      | d # a \<Rightarrow>
          if (d = CHR ''@'' \<or> d = CHR '':'') \<and> regex_alias_name (rev a) \<and>
             1 \<le> length (takeWhile channel_char (rev s)) \<and>
             length (takeWhile channel_char (rev s)) \<le> 8
          then Some (rev a, rev (takeWhile channel_char (rev s))) else None)"

text \<open>
  \<^verbatim>\<open>regex_alias_assign("^\\+?(" T_ALIAS_NAME ")[=:](" T_SERNUM ")$")\<close> and
  \<^verbatim>\<open>regex_alias_remove("^-(" T_ALIAS_NAME ")$")\<close>.
\<close>

definition regex_alias_assign :: "string \<Rightarrow> (string \<times> string) option" where
  "regex_alias_assign s =
     (let t = (case s of [] \<Rightarrow> [] | c # cs \<Rightarrow> if c = CHR ''+'' then cs else c # cs)
      in case dropWhile alias_char t of
           [] \<Rightarrow> None
         | d # n \<Rightarrow>
             if (d = CHR ''='' \<or> d = CHR '':'') \<and> regex_alias_name (takeWhile alias_char t) \<and>
                regex_sernum n
             then Some (takeWhile alias_char t, n) else None)"

definition regex_alias_remove :: "string \<Rightarrow> string option" where
  "regex_alias_remove s =
     (case s of
        [] \<Rightarrow> None
      | c # a \<Rightarrow> if c = CHR ''-'' \<and> regex_alias_name a then Some a else None)"

text \<open>
  \<^verbatim>\<open>strip_path\<close>, with \<^verbatim>\<open>regex("^(?:.*)(?:\\/|\\\\)(.+?)$")\<close>: the greedy first
  group runs to the last separator that still has a character after it; the dot
  matches no line terminator.
\<close>

fun strip_path_match :: "string \<Rightarrow> string option" where
  "strip_path_match [] = None"
| "strip_path_match (c # cs) =
     (case strip_path_match cs of
        Some r \<Rightarrow> Some r
      | None \<Rightarrow> if (c = CHR ''/'' \<or> c = CHR 0x5C) \<and> cs \<noteq> [] then Some cs else None)"

definition strip_path :: "string \<Rightarrow> string" where
  "strip_path filename =
     (if list_ex (\<lambda>c. c = CHR 0x0A \<or> c = CHR 0x0D) filename then filename
      else case strip_path_match filename of Some r \<Rightarrow> r | None \<Rightarrow> filename)"

definition APP_VERSION :: string where
  "APP_VERSION = ''1.1''"

definition PrintUsage :: "string \<Rightarrow> string" where
  "PrintUsage strProgName =
     ''USB HID Relay utility v'' @ APP_VERSION @ [CHR 0x0A] @
     ''Kerry S. Martin, martin@wild-wood.net'' @ [CHR 0x0A] @
     ''Usage:'' @ [CHR 0x0A] @
     ''  '' @ strProgName @ '' ENUMerate|list                              # list all devices by sn(#channels)'' @ [CHR 0x0A] @
     ''  '' @ strProgName @ '' Query sernum {sernum ...}                   # query all channels for specific SNs'' @ [CHR 0x0A] @
     ''  '' @ strProgName @ '' Query sernum@chlist {sernum@chlist ...}     # query given channels for specifc SNs'' @ [CHR 0x0A] @
     ''  '' @ strProgName @ '' SET sernum:pattern {sernum:pattern ...}     # set given patterns on specific SNs'' @ [CHR 0x0A] @
     ''  '' @ strProgName @ '' SET sernum ch=state {ch=state ...}          # set given channels on specific SNs'' @ [CHR 0x0A] @
     ''  '' @ strProgName @ '' ALIAS                                       # list sernum aliases'' @ [CHR 0x0A] @
     ''  '' @ strProgName @ '' ALIAS alias=sernum                          # create new alias'' @ [CHR 0x0A] @
     ''  '' @ strProgName @ '' ALIAS -alias                                # delete alias'' @ [CHR 0x0A, CHR 0x0A] @
     ''    sernum = 5-character serial number'' @ [CHR 0x0A] @
     ''    state = 0|1|OFF|ON|L|H|NO|NC'' @ [CHR 0x0A] @
     ''    pattern = qq...    where q = 0|1|L|H|X'' @ [CHR 0x0A] @
     ''    alias = starts with alphanum and -_#@~ (does not begin with -)'' @ [CHR 0x0A] @
     ''    alias may replace any serial number'' @ [CHR 0x0A]"

text \<open>\<^verbatim>\<open>get_state\<close> for a string and for a single character.\<close>

definition get_state :: "string \<Rightarrow> LOGIC" where
  "get_state status =
     (if regex_on_vals status then LOGIC_H
      else if regex_off_vals status then LOGIC_L
      else LOGIC_X)"

definition get_state_char :: "char \<Rightarrow> LOGIC" where
  "get_state_char status = get_state [status]"

definition Is_Sernum_Present :: "string \<Rightarrow> channels_t list \<Rightarrow> bool" where
  "Is_Sernum_Present sernum chans = (sernum \<noteq> [] \<and> list_ex (\<lambda>s. sn s = sernum) chans)"

definition Relays_Get_NumChannels :: "string \<Rightarrow> channels_t list \<Rightarrow> int" where
  "Relays_Get_NumChannels sernum chans =
     (if sernum \<noteq> [] then
        (case find (\<lambda>s. sn s = sernum) chans of Some s \<Rightarrow> channels s | None \<Rightarrow> 0)
      else 0)"

text \<open>
  \<^verbatim>\<open>Relays_Get_Sernums\<close>: the result of \<^verbatim>\<open>usb_relay_init\<close> is not looked at; the
  enumeration is freed only when it is not empty.
\<close>

definition Relays_Get_Sernums :: "driver \<Rightarrow> world \<Rightarrow> bool \<times> channels_t list \<times> world" where
  "Relays_Get_Sernums drv w =
     (drv_devices drv \<noteq> [],
      map (\<lambda>d. \<lparr>sn = fst d, channels = snd d\<rparr>) (drv_devices drv),
      w\<lparr>w_calls := w_calls w @ [usb_relay_init, usb_relay_device_enumerate] @
           (if drv_devices drv \<noteq> [] then [usb_relay_device_free_enumerate] else []) @
           [usb_relay_exit]\<rparr>)"

text \<open>
  \<^verbatim>\<open>Relays_Set\<close>. The serial number handed to the driver is the upper case of the
  first five characters. The inner loop walks one \<^verbatim>\<open>MODULE\<close> in key order.
\<close>

fun Relays_Set_channels :: "MODULE \<Rightarrow> usb_call list" where
  "Relays_Set_channels [] = []"
| "Relays_Set_channels ((ch, st) # m) =
     (if ch = CHR ''0'' then
        (case st of
           LOGIC_H \<Rightarrow> [usb_relay_device_open_all_relay_channel]
         | LOGIC_L \<Rightarrow> [usb_relay_device_close_all_relay_channel]
         | LOGIC_X \<Rightarrow> [])
      else
        (case st of
           LOGIC_H \<Rightarrow> [usb_relay_device_open_one_relay_channel (of_char ch - of_char CHR ''1'' + 1)]
         | LOGIC_L \<Rightarrow> [usb_relay_device_close_one_relay_channel (of_char ch - of_char CHR ''1'' + 1)]
         | LOGIC_X \<Rightarrow> []))
     @ Relays_Set_channels m"

fun Relays_Set_modules :: "driver \<Rightarrow> channels_t list \<Rightarrow> MODULE_SET \<Rightarrow> usb_call list" where
  "Relays_Set_modules drv chans [] = []"
| "Relays_Set_modules drv chans ((sernum, m) # ms) =
     (let szRelaySN =
            (if sernum = [] then (case chans of [] \<Rightarrow> [] | s # _ \<Rightarrow> map toupper (take 5 (sn s)))
             else map toupper (take 5 sernum))
      in usb_relay_device_open_with_serial_number szRelaySN #
         (case map_of (drv_handles drv) szRelaySN of
            Some status \<Rightarrow> Relays_Set_channels m @ [usb_relay_device_close]
          | None \<Rightarrow> []))
     @ Relays_Set_modules drv chans ms"

definition Relays_Set :: "driver \<Rightarrow> MODULE_SET \<Rightarrow> channels_t list \<Rightarrow> world \<Rightarrow> ERROR_CODES \<times> world" where
  "Relays_Set drv modules chans w =
     (if drv_init_ok drv
      then (NONE, w\<lparr>w_calls := w_calls w @ [usb_relay_init] @
                      Relays_Set_modules drv chans modules @ [usb_relay_exit]\<rparr>)
      else (NO_DRIVER_INIT, w\<lparr>w_calls := w_calls w @ [usb_relay_init]\<rparr>))"

text \<open>\<^verbatim>\<open>Relays_Enumerate\<close>.\<close>

fun Relays_Enumerate_devices :: "(string \<times> int) list \<Rightarrow> string" where
  "Relays_Enumerate_devices [] = []"
| "Relays_Enumerate_devices ((serial_number, type) # ds) =
     serial_number @ ''('' @
     (if type = 1 then ''1)'' else if type = 2 then ''2)'' else if type = 4 then ''4)''
      else if type = 8 then ''8)'' else ''?)'') @
     (if ds \<noteq> [] then '','' else []) @ Relays_Enumerate_devices ds"

definition Relays_Enumerate :: "driver \<Rightarrow> world \<Rightarrow> ERROR_CODES \<times> world" where
  "Relays_Enumerate drv w =
     (if drv_init_ok drv then
        (if drv_devices drv \<noteq> []
         then (NONE, w\<lparr>w_calls := w_calls w @ [usb_relay_init, usb_relay_device_enumerate,
                                    usb_relay_device_free_enumerate, usb_relay_exit],
                        w_cout := w_cout w @ Relays_Enumerate_devices (drv_devices drv)\<rparr>)
         else (NO_DEVICES, w\<lparr>w_calls := w_calls w @ [usb_relay_init, usb_relay_device_enumerate,
                                          usb_relay_exit]\<rparr>))
      else (NO_DRIVER_INIT, w\<lparr>w_calls := w_calls w @ [usb_relay_init]\<rparr>))"

text \<open>
  \<^verbatim>\<open>Relays_Query\<close>. One query: the calls it makes, what it prints, and whether it
  sets \<^verbatim>\<open>BAD_SERNUM\<close>. A channel digit above the channel count prints nothing.
\<close>

definition Relays_Query_bits :: "nat \<Rightarrow> int \<Rightarrow> string \<Rightarrow> string" where
  "Relays_Query_bits status num_channels qs =
     concat (map (\<lambda>c.
        if 49 \<le> (of_char c :: nat) \<and> (of_char c :: nat) \<le> 56 then
          (let ch = (of_char c :: int) - 48
           in if 1 \<le> ch \<and> ch \<le> num_channels
              then (if bit status (nat (ch - 1)) then ''1'' else ''0'')
              else [])
        else []) qs)"

definition Relays_Query_one ::
    "driver \<Rightarrow> channels_t list \<Rightarrow> queries_t \<Rightarrow> bool \<times> usb_call list \<times> string" where
  "Relays_Query_one drv chans Q =
     (let sernum = query_sn Q;
          szRelaySN = (if sernum \<noteq> [] then map toupper (take 5 sernum) else []);
          num_channels =
            (if sernum \<noteq> [] then
               (case find (\<lambda>s. sn s = szRelaySN) chans of Some s \<Rightarrow> channels s | None \<Rightarrow> 0)
             else 0);
          bad = (sernum \<noteq> [] \<and> num_channels < 1)
      in if num_channels > 0 then
           (case map_of (drv_handles drv) szRelaySN of
              Some status \<Rightarrow>
                (bad,
                 [usb_relay_device_open_with_serial_number szRelaySN,
                  usb_relay_device_get_status, usb_relay_device_close],
                 Relays_Query_bits status num_channels
                   (if query_q Q = [] then map (\<lambda>i. char_of (48 + i)) [1..num_channels]
                    else query_q Q) @ '' '')
            | None \<Rightarrow> (bad, [usb_relay_device_open_with_serial_number szRelaySN], '' ''))
         else (bad, [], []))"

fun Relays_Query_loop ::
    "driver \<Rightarrow> channels_t list \<Rightarrow> queries_t list \<Rightarrow> ERROR_CODES \<Rightarrow> world \<Rightarrow> ERROR_CODES \<times> world" where
  "Relays_Query_loop drv chans [] err w = (err, w)"
| "Relays_Query_loop drv chans (Q # Qs) err w =
     (case Relays_Query_one drv chans Q of
        (bad, calls, out) \<Rightarrow>
          Relays_Query_loop drv chans Qs (if bad then BAD_SERNUM else err)
            (w\<lparr>w_calls := w_calls w @ calls, w_cout := w_cout w @ out\<rparr>))"

definition Relays_Query :: "driver \<Rightarrow> queries_t list \<Rightarrow> channels_t list \<Rightarrow> world \<Rightarrow> ERROR_CODES \<times> world" where
  "Relays_Query drv qs chans w =
     (if drv_init_ok drv then
        (case Relays_Query_loop drv chans qs NONE (w\<lparr>w_calls := w_calls w @ [usb_relay_init]\<rparr>) of
           (err, w1) \<Rightarrow> (err, w1\<lparr>w_calls := w_calls w1 @ [usb_relay_exit]\<rparr>))
      else (NO_DRIVER_INIT, w\<lparr>w_calls := w_calls w @ [usb_relay_init]\<rparr>))"

section \<open>Relay.cpp: main\<close>

text \<open>The local variables of \<^verbatim>\<open>main\<close> that the command loops change.\<close>

record locals =
  error :: ERROR_CODES
  error_sernum :: string
  is_help :: bool
  is_enumerate :: bool
  is_query :: bool
  is_set :: bool
  module :: MODULE_SET
  queries :: "queries_t list"
  cur_sn :: string

definition locals_init :: locals where
  "locals_init =
     \<lparr>error = NONE, error_sernum = [], is_help = False, is_enumerate = False,
      is_query = False, is_set = False, module = [], queries = [], cur_sn = []\<rparr>"

text \<open>
  The three argument loops run while \<^verbatim>\<open>error == ERROR_CODES::NONE\<close>; the body is
  given the argument, the locals and the registry.
\<close>

fun arg_loop ::
    "(string \<Rightarrow> locals \<times> registry \<Rightarrow> locals \<times> registry) \<Rightarrow> string list \<Rightarrow>
     locals \<times> registry \<Rightarrow> locals \<times> registry" where
  "arg_loop body [] st = st"
| "arg_loop body (arg # args) st =
     (if error (fst st) = NONE then arg_loop body args (body arg st) else st)"

text \<open>The body of the \<^verbatim>\<open>ALIAS\<close> loop.\<close>

definition alias_arg :: "string \<Rightarrow> locals \<times> registry \<Rightarrow> locals \<times> registry" where
  "alias_arg arg st =
     (case regex_alias_assign arg of
        Some (a, n) \<Rightarrow> (fst st, AssignAlias (snd st) a n)
      | None \<Rightarrow>
          (case regex_alias_remove arg of
             Some a \<Rightarrow> (fst st, RemoveAlias (snd st) a)
           | None \<Rightarrow> ((fst st)\<lparr>error := SYNTAX\<rparr>, snd st)))"

text \<open>
  The body of the \<^verbatim>\<open>SET\<close> loop. \<^verbatim>\<open>pattern.length() <= num_channels\<close> compares a
  \<^verbatim>\<open>size_t\<close> with an \<^verbatim>\<open>int\<close>, which is converted to 64 bits unsigned.
\<close>

fun pattern_loop :: "nat \<Rightarrow> string \<Rightarrow> MODULE \<Rightarrow> MODULE" where
  "pattern_loop j [] m = m"
| "pattern_loop j (c # cs) m =
     pattern_loop (Suc j) cs (map_assign (char_of (of_char CHR ''1'' + j)) (get_state_char c) m)"

definition map_at :: "'k \<Rightarrow> ('k \<times> 'v list) list \<Rightarrow> 'v list" where
  "map_at k m = (case map_of m k of Some v \<Rightarrow> v | None \<Rightarrow> [])"

definition set_arg :: "channels_t list \<Rightarrow> string \<Rightarrow> locals \<times> registry \<Rightarrow> locals \<times> registry" where
  "set_arg chans arg st =
     (let l = fst st; reg = snd st in
      if regex_alias_name arg then
        (case GetAliasSernum reg arg of
           (s, reg1) \<Rightarrow>
             if \<not> Is_Sernum_Present s chans
             then (l\<lparr>cur_sn := s, error := BAD_SERNUM, error_sernum := s\<rparr>, reg1)
             else (l\<lparr>cur_sn := s\<rparr>, reg1))
      else
        (case regex_sernum_pattern arg of
           Some (a, pattern) \<Rightarrow>
             (case GetAliasSernum reg a of
                (s, reg1) \<Rightarrow>
                  if Is_Sernum_Present s chans then
                    (if int (length pattern) \<le> Relays_Get_NumChannels s chans mod 2 ^ 64
                     then (l\<lparr>cur_sn := s,
                              module := map_assign s (pattern_loop 0 pattern []) (module l)\<rparr>,
                           reg1)
                     else (l\<lparr>cur_sn := s, error := INVALID_CHANNEL\<rparr>, reg1))
                  else (l\<lparr>cur_sn := s, error := BAD_SERNUM, error_sernum := s\<rparr>, reg1))
         | None \<Rightarrow>
             (case regex_ch_set arg of
                Some (ch, p) \<Rightarrow>
                  if cur_sn l \<noteq> [] then
                    (let module1 = (if map_of (module l) (cur_sn l) = None
                                    then map_assign (cur_sn l) [] (module l) else module l)
                     in if (of_char (hd ch) :: int) - 48 \<le> Relays_Get_NumChannels (cur_sn l) chans
                        then (l\<lparr>module := map_assign (cur_sn l)
                                     (map_assign (hd ch) (get_state p) (map_at (cur_sn l) module1))
                                     module1\<rparr>, reg)
                        else (l\<lparr>module := module1, error := INVALID_CHANNEL\<rparr>, reg))
                  else (l\<lparr>error := SYNTAX\<rparr>, reg)
              | None \<Rightarrow> (l\<lparr>error := SYNTAX\<rparr>, reg))))"

text \<open>The body of the \<^verbatim>\<open>QUERY\<close> loop: only the length of the channel list is checked.\<close>

definition query_arg :: "channels_t list \<Rightarrow> string \<Rightarrow> locals \<times> registry \<Rightarrow> locals \<times> registry" where
  "query_arg chans arg st =
     (let l = fst st; reg = snd st in
      case regex_query_chlist arg of
        Some (a, chlist) \<Rightarrow>
          (case GetAliasSernum reg a of
             (s, reg1) \<Rightarrow>
               if Is_Sernum_Present s chans then
                 (if int (length chlist) \<le> Relays_Get_NumChannels s chans mod 2 ^ 64
                  then (l\<lparr>queries := queries l @ [\<lparr>query_sn = s, query_q = chlist\<rparr>]\<rparr>, reg1)
                  else (l\<lparr>error := INVALID_CHANNEL\<rparr>, reg1))
               else (l\<lparr>error := BAD_SERNUM, error_sernum := s\<rparr>, reg1))
      | None \<Rightarrow>
          if regex_alias_name arg then
            (case GetAliasSernum reg arg of
               (s, reg1) \<Rightarrow>
                 if Is_Sernum_Present s chans
                 then (l\<lparr>queries := queries l @ [\<lparr>query_sn = s, query_q = []\<rparr>]\<rparr>, reg1)
                 else (l\<lparr>error := BAD_SERNUM, error_sernum := s\<rparr>, reg1))
          else (l\<lparr>error := SYNTAX\<rparr>, reg))"

text \<open>
  The first half of \<^verbatim>\<open>main\<close>: the command is recognised and its arguments are
  processed. \<open>args\<close> is \<^verbatim>\<open>argv[1..]\<close>. The alias arguments are taken from the last to
  the first.
\<close>

definition main_parse :: "driver \<Rightarrow> string list \<Rightarrow> world \<Rightarrow> locals \<times> channels_t list \<times> world" where
  "main_parse drv args w =
     (case args of
        [] \<Rightarrow> (locals_init\<lparr>is_help := True\<rparr>, [], w)
      | cmd # rest \<Rightarrow>
          if regex_help cmd then
            (if rest = [] then (locals_init\<lparr>is_help := True\<rparr>, [], w)
             else (locals_init\<lparr>error := SYNTAX\<rparr>, [], w))
          else if regex_enumerate cmd then
            (if rest = [] then (locals_init\<lparr>is_enumerate := True\<rparr>, [], w)
             else (locals_init\<lparr>error := SYNTAX\<rparr>, [], w))
          else
            (case Relays_Get_Sernums drv w of
               (ok, chans, w1) \<Rightarrow>
                 if ok then
                   (if regex_alias cmd then
                      (if rest = [] then
                         (case ListAlias (w_reg w1) of
                            (out, reg1) \<Rightarrow>
                              (locals_init, chans, w1\<lparr>w_reg := reg1, w_cout := w_cout w1 @ out\<rparr>))
                       else
                         (case arg_loop alias_arg (rev rest) (locals_init, w_reg w1) of
                            (l, reg1) \<Rightarrow>
                              if error l = NONE then
                                (case ListAlias reg1 of
                                   (out, reg2) \<Rightarrow>
                                     (l, chans, w1\<lparr>w_reg := reg2, w_cout := w_cout w1 @ out\<rparr>))
                              else (l, chans, w1\<lparr>w_reg := reg1\<rparr>)))
                    else if regex_set cmd \<and> rest \<noteq> [] then
                      (case arg_loop (set_arg chans) rest (locals_init, w_reg w1) of
                         (l, reg1) \<Rightarrow>
                           ((if error l = NONE then l\<lparr>is_set := True\<rparr> else l), chans,
                            w1\<lparr>w_reg := reg1\<rparr>))
                    else if regex_query cmd then
                      (case arg_loop (query_arg chans) rest (locals_init, w_reg w1) of
                         (l, reg1) \<Rightarrow>
                           ((if error l = NONE then l\<lparr>is_query := True\<rparr> else l), chans,
                            w1\<lparr>w_reg := reg1\<rparr>))
                    else (locals_init\<lparr>error := SYNTAX\<rparr>, chans, w1))
                 else (locals_init\<lparr>error := NO_DEVICES\<rparr>, chans, w1)))"

text \<open>The message \<^verbatim>\<open>main\<close> sends to \<^verbatim>\<open>cerr\<close> for an error code.\<close>

fun error_message :: "ERROR_CODES \<Rightarrow> string \<Rightarrow> string" where
  "error_message NONE s = []"
| "error_message SYNTAX s = ''Syntax error''"
| "error_message NO_DEVICES s = ''No devices found''"
| "error_message BAD_SERNUM s = ''Serial number '' @ s @ '' not found''"
| "error_message NO_DRIVER_INIT s = ''Driver did not initialize''"
| "error_message INVALID_CHANNEL s = ''Invalid channel specified''"

text \<open>
  \<^verbatim>\<open>main\<close>: \<open>prog\<close> is \<^verbatim>\<open>argv[0]\<close>, \<open>args\<close> the arguments after it. The result is the
  error code, whose integer value is the exit code, and what the run left behind.
\<close>

definition main :: "driver \<Rightarrow> string \<Rightarrow> string list \<Rightarrow> world \<Rightarrow> ERROR_CODES \<times> world" where
  "main drv prog args w =
     (case main_parse drv args w of
        (l, chans, w1) \<Rightarrow>
          (case (if error l = NONE then
                   (if is_help l then (NONE, w1\<lparr>w_cout := w_cout w1 @ PrintUsage (strip_path prog)\<rparr>)
                    else if is_enumerate l then Relays_Enumerate drv w1
                    else if is_set l then Relays_Set drv (module l) chans w1
                    else if is_query l then Relays_Query drv (queries l) chans w1
                    else (NONE, w1))
                 else (error l, w1)) of
             (err, w2) \<Rightarrow>
               (err, w2\<lparr>w_cerr := w_cerr w2 @ error_message err (error_sernum l)\<rparr>)))"

section \<open>Notions used in the statements\<close>

text \<open>
  None of these is part of the program. \<open>alias_entries\<close> collects the successive matches
  that every loop over the setting visits, \<open>stored\<close> is the string \<^verbatim>\<open>ReadRegSZ\<close>
  hands back and \<open>persisted_list\<close> the entries read from it; \<open>join_entries\<close> is the
  format of the specification, \<^verbatim>\<open>ALIAS=SERNUM\<close> pairs joined by commas;
  \<open>append_entry\<close> is one step of the rebuilding in \<^verbatim>\<open>RemoveAlias\<close>;
  \<open>upper_entry\<close> is the upper-case normalisation of an entry and \<open>assign_all\<close> saves a
  list by assigning its entries from the last to the first; \<open>print_entries\<close> is what
  \<^verbatim>\<open>ListAlias\<close> prints for a list of entries; \<open>alias_token\<close> and \<open>alias_apply\<close>
  describe one argument of the \<^verbatim>\<open>ALIAS\<close> command; \<open>pattern_calls\<close> reads a pattern in
  the words of the specification (\<^verbatim>\<open>1\<close> and \<^verbatim>\<open>H\<close> set the channel, \<^verbatim>\<open>0\<close> and
  \<^verbatim>\<open>L\<close> clear it, any other character makes no call) and \<open>pattern_module\<close> is the
  \<^verbatim>\<open>MODULE\<close> the pattern loop builds.
\<close>

function alias_entries :: "string \<Rightarrow> (string \<times> string) list" where
  "alias_entries s =
     (case regex_search_alias_registry s of
        None \<Rightarrow> []
      | Some (m1, m2, suffix) \<Rightarrow> (m1, m2) # alias_entries suffix)"
  by pat_completeness auto
termination
  by (relation "measure length") (auto dest: regex_search_alias_registry_suffix)

declare alias_entries.simps [simp del]

fun join_entries :: "(string \<times> string) list \<Rightarrow> string" where
  "join_entries [] = []"
| "join_entries [(a, n)] = a @ ''='' @ n"
| "join_entries ((a, n) # e # es) = a @ ''='' @ n @ '','' @ join_entries (e # es)"

definition stored :: "registry \<Rightarrow> string" where
  "stored reg = (case RegGetValueW reg of Some v \<Rightarrow> v | None \<Rightarrow> [])"

definition persisted_list :: "registry \<Rightarrow> (string \<times> string) list" where
  "persisted_list reg = alias_entries (stored reg)"

definition valid_entry :: "string \<times> string \<Rightarrow> bool" where
  "valid_entry e = (regex_alias_name (fst e) \<and> regex_sernum (snd e))"

definition append_entry :: "string \<Rightarrow> string \<times> string \<Rightarrow> string" where
  "append_entry acc e = (if acc \<noteq> [] then acc @ '','' else acc) @ fst e @ ''='' @ snd e"

definition upper_entry :: "string \<times> string \<Rightarrow> string \<times> string" where
  "upper_entry e = (map toupper (fst e), map toupper (snd e))"

definition assign_all :: "registry \<Rightarrow> (string \<times> string) list \<Rightarrow> registry" where
  "assign_all reg L = foldr (\<lambda>e r. AssignAlias r (fst e) (snd e)) L reg"

fun print_entries :: "bool \<Rightarrow> string \<Rightarrow> (string \<times> string) list \<Rightarrow> string" where
  "print_entries bFirst out [] = out"
| "print_entries bFirst out (e # es) =
     print_entries False ((if bFirst then out else out @ [CHR 0x0A]) @ fst e @ ''='' @ snd e) es"

definition alias_token :: "string \<Rightarrow> bool" where
  "alias_token tok = (regex_alias_assign tok \<noteq> None \<or> regex_alias_remove tok \<noteq> None)"

definition alias_apply :: "string \<Rightarrow> registry \<Rightarrow> registry" where
  "alias_apply tok reg =
     (case regex_alias_assign tok of
        Some (a, n) \<Rightarrow> AssignAlias reg a n
      | None \<Rightarrow> (case regex_alias_remove tok of Some a \<Rightarrow> RemoveAlias reg a | None \<Rightarrow> reg))"



section \<open>Facts about the character classes\<close>


lemma char_eq_code: "(c = d) = ((of_char c :: nat) = of_char d)"
  by simp

lemma of_char_toupper:
  "(of_char (toupper c) :: nat) =
     (if 97 \<le> (of_char c :: nat) \<and> (of_char c :: nat) \<le> 122 then of_char c - 32 else of_char c)"
  by (auto simp: toupper_def)

lemma sernum_char_toupper [simp]: "sernum_char (toupper c) = sernum_char c"
  unfolding sernum_char_def Let_def of_char_toupper by auto

lemma alias_first_char_toupper [simp]: "alias_first_char (toupper c) = alias_first_char c"
  unfolding alias_first_char_def sernum_char_toupper
  by (simp add: char_eq_code [of "toupper c"] char_eq_code [of c] of_char_toupper sernum_char_def)

lemma alias_char_toupper [simp]: "alias_char (toupper c) = alias_char c"
  unfolding alias_char_def alias_first_char_toupper
  by (simp add: char_eq_code [of "toupper c"] char_eq_code [of c] of_char_toupper alias_first_char_def sernum_char_def)

lemma toupper_idem [simp]: "toupper (toupper c) = toupper c"
  by (auto simp: char_eq_code [of "toupper (toupper c)"] of_char_toupper)

lemma regex_sernum_toupper [simp]: "regex_sernum (map toupper s) = regex_sernum s"
  by (simp add: regex_sernum_def list_all_iff)

lemma regex_alias_name_toupper [simp]: "regex_alias_name (map toupper s) = regex_alias_name s"
  by (cases s) (simp_all add: regex_alias_name_def list_all_iff)

lemma sep_not_alias_char [simp]: "\<not> alias_char CHR ''=''" "\<not> alias_char CHR '':''" "\<not> alias_char CHR '',''"
  by (simp_all add: alias_char_def alias_first_char_def sernum_char_def)

lemma comma_not_sernum_char [simp]: "\<not> sernum_char CHR '',''"
  by (simp add: sernum_char_def)


section \<open>The persisted list as the program reads it\<close>

text \<open>
  An entry in the format of the specification is found at the front of the string, and
  reading a joined list gives the list back; every entry that is read is well formed.
\<close>

lemma match_alias_registry_front:
  assumes "regex_alias_name a" "regex_sernum n" "rest = [] \<or> hd rest = CHR '',''"
  shows "match_alias_registry (a @ ''='' @ n @ rest) = Some (a, n, tl rest)"
proof -
  from assms(1) obtain c cs where a: "a = c # cs" and c: "alias_first_char c"
    and cs: "list_all alias_char cs"
    by (cases a) (auto simp: regex_alias_name_def)
  from cs have d: "dropWhile alias_char (cs @ ''='' @ n @ rest) = ''='' @ n @ rest"
    by (simp add: dropWhile_append list_all_iff)
  from cs have t: "takeWhile alias_char (cs @ ''='' @ n @ rest) = cs"
    by (simp add: takeWhile_append list_all_iff)
  from assms(2) have n: "length n = 5" "list_all sernum_char n"
    by (simp_all add: regex_sernum_def)
  have "(case rest of [] \<Rightarrow> [] | e # u \<Rightarrow> if e = CHR '','' then u else e # u) = tl rest"
    using assms(3) by (cases rest) auto
  with a c d t n show ?thesis
    by (simp add: match_alias_registry_def)
qed

lemma regex_search_alias_registry_front:
  assumes "regex_alias_name a" "regex_sernum n" "rest = [] \<or> hd rest = CHR '',''"
  shows "regex_search_alias_registry (a @ ''='' @ n @ rest) = Some (a, n, tl rest)"
proof -
  from assms(1) obtain c cs where a: "a = c # cs"
    by (cases a) (auto simp: regex_alias_name_def)
  have "match_alias_registry ((c # cs) @ ''='' @ n @ rest) = Some (c # cs, n, tl rest)"
    using match_alias_registry_front [OF assms] a by simp
  then show ?thesis using a by simp
qed

lemma alias_entries_Some:
  "regex_search_alias_registry s = Some (a, n, suf) \<Longrightarrow>
   alias_entries s = (a, n) # alias_entries suf"
  by (subst alias_entries.simps) simp

lemma alias_entries_None:
  "regex_search_alias_registry s = None \<Longrightarrow> alias_entries s = []"
  by (subst alias_entries.simps) simp

lemma alias_entries_front:
  assumes "regex_alias_name a" "regex_sernum n"
  shows "alias_entries (a @ CHR ''='' # n) = [(a, n)]"
    and "alias_entries (a @ CHR ''='' # n @ CHR '','' # t) = (a, n) # alias_entries t"
proof -
  have "regex_search_alias_registry (a @ ''='' @ n @ []) = Some (a, n, tl [])"
    by (rule regex_search_alias_registry_front [OF assms]) simp
  then show "alias_entries (a @ CHR ''='' # n) = [(a, n)]"
    by (simp add: alias_entries_Some alias_entries_None)
  have "regex_search_alias_registry (a @ ''='' @ n @ ('','' @ t)) = Some (a, n, tl ('','' @ t))"
    by (rule regex_search_alias_registry_front [OF assms]) simp
  then show "alias_entries (a @ CHR ''='' # n @ CHR '','' # t) = (a, n) # alias_entries t"
    by (simp add: alias_entries_Some)
qed

lemma alias_entries_Nil [simp]: "alias_entries [] = []"
  by (simp add: alias_entries_None)

lemma alias_entries_join:
  "list_all valid_entry es \<Longrightarrow> alias_entries (join_entries es) = es"
proof (induction es rule: join_entries.induct)
  case 1
  then show ?case by simp
next
  case (2 a n)
  then show ?case by (simp add: valid_entry_def alias_entries_front)
next
  case (3 a n e es)
  then show ?case by (simp add: valid_entry_def alias_entries_front)
qed

lemma match_alias_registry_valid:
  "match_alias_registry s = Some (a, n, suf) \<Longrightarrow> regex_alias_name a \<and> regex_sernum n"
  by (auto simp: match_alias_registry_def regex_alias_name_def regex_sernum_def list_all_iff
      split: list.splits if_splits dest: set_takeWhileD)

lemma regex_search_alias_registry_valid:
  "regex_search_alias_registry s = Some (a, n, suf) \<Longrightarrow> regex_alias_name a \<and> regex_sernum n"
  by (induction s) (auto split: option.splits dest: match_alias_registry_valid)

lemma alias_entries_valid: "list_all valid_entry (alias_entries s)"
proof (induction s rule: alias_entries.induct)
  case (1 s)
  show ?case
  proof (cases "regex_search_alias_registry s")
    case None
    then show ?thesis by (simp add: alias_entries_None)
  next
    case (Some m)
    obtain a n suf where m: "m = (a, n, suf)" by (cases m)
    with Some 1 have "list_all valid_entry (alias_entries suf)" by simp
    moreover from Some m have "valid_entry (a, n)"
      using regex_search_alias_registry_valid [of s a n suf] by (simp add: valid_entry_def)
    ultimately show ?thesis using Some m by (simp add: alias_entries_Some)
  qed
qed


subsection \<open>The loops in terms of the entries\<close>

lemma RemoveAlias_loop_None:
  "regex_search_alias_registry s = None \<Longrightarrow> RemoveAlias_loop a s acc found = (acc, found)"
  by (subst RemoveAlias_loop.simps) simp

lemma RemoveAlias_loop_Some:
  "regex_search_alias_registry s = Some (m1, m2, suffix) \<Longrightarrow>
   RemoveAlias_loop a s acc found =
     (if a = m1 then RemoveAlias_loop a suffix acc True
      else RemoveAlias_loop a suffix (append_entry acc (m1, m2)) found)"
  by (subst RemoveAlias_loop.simps) (simp add: append_entry_def)

lemma RemoveAlias_loop_entries:
  "RemoveAlias_loop a s acc found =
     (foldl append_entry acc (filter (\<lambda>e. fst e \<noteq> a) (alias_entries s)),
      found \<or> a \<in> fst ` set (alias_entries s))"
proof (induction "length s" arbitrary: s acc found rule: less_induct)
  case less
  show ?case
  proof (cases "regex_search_alias_registry s")
    case None
    then show ?thesis
      by (simp add: RemoveAlias_loop_None alias_entries_None)
  next
    case (Some m)
    obtain m1 m2 suffix where m: "m = (m1, m2, suffix)" by (cases m)
    with Some have hit: "regex_search_alias_registry s = Some (m1, m2, suffix)" by simp
    then have "length suffix < length s"
      by (rule regex_search_alias_registry_suffix)
    then have ih: "\<And>acc found. RemoveAlias_loop a suffix acc found =
       (foldl append_entry acc (filter (\<lambda>e. fst e \<noteq> a) (alias_entries suffix)),
        found \<or> a \<in> fst ` set (alias_entries suffix))"
      by (rule less)
    show ?thesis
      using ih by (auto simp: RemoveAlias_loop_Some [OF hit] alias_entries_Some [OF hit])
  qed
qed

lemma join_entries_Cons:
  "join_entries (e # es) =
     fst e @ ''='' @ snd e @ (if es = [] then [] else '','' @ join_entries es)"
  by (cases e; cases es) auto

lemma join_entries_eq_Nil [simp]: "(join_entries es = []) = (es = [])"
  by (cases es) (simp_all add: join_entries_Cons)

lemma foldl_append_entry:
  "foldl append_entry acc es =
     (if acc = [] then join_entries es
      else if es = [] then acc else acc @ '','' @ join_entries es)"
proof (induction es arbitrary: acc)
  case Nil
  then show ?case by simp
next
  case (Cons e es)
  have "append_entry acc e \<noteq> []" by (simp add: append_entry_def)
  with Cons [of "append_entry acc e"] show ?case
    by (simp add: join_entries_Cons append_entry_def)
qed

lemma length_join_entries_filter:
  "length (join_entries (filter P es)) \<le> length (join_entries es)"
proof (induction es)
  case Nil
  then show ?case by simp
next
  case (Cons e es)
  then show ?case by (simp add: join_entries_Cons)
qed

lemma GetAliasSernum_loop_None:
  "regex_search_alias_registry s = None \<Longrightarrow> GetAliasSernum_loop a s = None"
  by (subst GetAliasSernum_loop.simps) simp

lemma GetAliasSernum_loop_Some:
  "regex_search_alias_registry s = Some (m1, m2, suffix) \<Longrightarrow>
   GetAliasSernum_loop a s = (if a = m1 then Some m2 else GetAliasSernum_loop a suffix)"
  by (subst GetAliasSernum_loop.simps) simp

lemma GetAliasSernum_loop_map_of:
  "GetAliasSernum_loop a s = map_of (alias_entries s) a"
proof (induction "length s" arbitrary: s rule: less_induct)
  case less
  show ?case
  proof (cases "regex_search_alias_registry s")
    case None
    then show ?thesis
      by (simp add: GetAliasSernum_loop_None alias_entries_None)
  next
    case (Some m)
    obtain m1 m2 suffix where m: "m = (m1, m2, suffix)" by (cases m)
    with Some have hit: "regex_search_alias_registry s = Some (m1, m2, suffix)" by simp
    then have "length suffix < length s"
      by (rule regex_search_alias_registry_suffix)
    then have ih: "GetAliasSernum_loop a suffix = map_of (alias_entries suffix) a"
      by (rule less)
    show ?thesis
      using ih by (auto simp: GetAliasSernum_loop_Some [OF hit] alias_entries_Some [OF hit])
  qed
qed

subsection \<open>Reading and writing the setting\<close>

lemma stored_RegSetValueExW:
  "length v < MAX_SZ_RESULT_LENGTH \<Longrightarrow> stored (RegSetValueExW reg v) = v"
  by (simp add: stored_def RegGetValueW_def RegSetValueExW_def)

lemma reg_writable_RegSetValueExW [simp]:
  "reg_writable (RegSetValueExW reg v) = reg_writable reg"
  by (simp add: RegSetValueExW_def)

lemma ReadRegSZ_stored:
  "ReadRegSZ reg [] =
     (RegGetValueW reg \<noteq> None \<or> reg_writable reg, stored reg,
      if RegGetValueW reg = None \<and> reg_writable reg then RegSetValueExW reg [] else reg)"
  by (simp add: ReadRegSZ_def stored_def split: option.splits)

lemma stored_after_read [simp]:
  "stored (if RegGetValueW reg = None \<and> reg_writable reg then RegSetValueExW reg [] else reg)
     = stored reg"
  by (simp add: stored_RegSetValueExW MAX_SZ_RESULT_LENGTH_def) (simp add: stored_def)

lemma GetAliasSernum_map_of:
  "fst (GetAliasSernum reg tok) =
     (case map_of (persisted_list reg) (map toupper tok) of
        Some sernum \<Rightarrow> sernum
      | None \<Rightarrow> if regex_sernum (map toupper tok) then map toupper tok else [])"
proof (cases "RegGetValueW reg \<noteq> None \<or> reg_writable reg")
  case True
  then show ?thesis
    by (simp add: GetAliasSernum_def ReadRegSZ_stored GetAliasSernum_loop_map_of
        persisted_list_def split: option.splits)
next
  case False
  then have "stored reg = []" by (simp add: stored_def)
  with False show ?thesis
    by (simp add: GetAliasSernum_def ReadRegSZ_stored persisted_list_def)
qed

lemma RemoveAlias_eq:
  "RemoveAlias reg A =
     (let reg1 = (if RegGetValueW reg = None \<and> reg_writable reg
                  then RegSetValueExW reg [] else reg)
      in if (RegGetValueW reg \<noteq> None \<or> reg_writable reg) \<and>
            map toupper A \<in> fst ` set (persisted_list reg)
         then snd (WriteRegSZ reg1
                (join_entries (filter (\<lambda>e. fst e \<noteq> map toupper A) (persisted_list reg))))
         else reg1)"
  by (simp add: RemoveAlias_def ReadRegSZ_stored RemoveAlias_loop_entries foldl_append_entry
      persisted_list_def Let_def)

lemma toupper_comp [simp]: "toupper \<circ> toupper = toupper"
  by (rule ext) simp

lemma stored_RegSetValueExW_Nil [simp]: "stored (RegSetValueExW reg []) = []"
  by (simp add: stored_RegSetValueExW MAX_SZ_RESULT_LENGTH_def)

lemma stored_unreadable: "RegGetValueW reg = None \<Longrightarrow> stored reg = []"
  by (simp add: stored_def)

lemma stored_WriteRegSZ:
  "reg_writable reg \<Longrightarrow> length v < MAX_SZ_RESULT_LENGTH \<Longrightarrow> stored (snd (WriteRegSZ reg v)) = v"
  by (simp add: WriteRegSZ_def stored_RegSetValueExW)

lemma reg_writable_WriteRegSZ [simp]:
  "reg_writable (snd (WriteRegSZ reg v)) = reg_writable reg"
  by (simp add: WriteRegSZ_def)

lemma reg_writable_after_read [simp]:
  "reg_writable (if RegGetValueW reg = None \<and> reg_writable reg then RegSetValueExW reg [] else reg)
     = reg_writable reg"
  by simp

lemma persisted_list_valid: "list_all valid_entry (persisted_list reg)"
  by (simp add: persisted_list_def alias_entries_valid)

lemma list_all_filter_valid: "list_all valid_entry es \<Longrightarrow> list_all valid_entry (filter P es)"
  by (simp add: list_all_iff)

lemma RemoveAlias_stored:
  assumes w: "reg_writable reg"
    and len: "length (join_entries (filter (\<lambda>e. fst e \<noteq> map toupper A) (persisted_list reg)))
               < MAX_SZ_RESULT_LENGTH"
  shows "stored (RemoveAlias reg A) =
           (if map toupper A \<in> fst ` set (persisted_list reg)
            then join_entries (filter (\<lambda>e. fst e \<noteq> map toupper A) (persisted_list reg))
            else stored reg)"
    and "reg_writable (RemoveAlias reg A)"
    and "persisted_list (RemoveAlias reg A) =
           filter (\<lambda>e. fst e \<noteq> map toupper A) (persisted_list reg)"
proof -
  let ?E1 = "filter (\<lambda>e. fst e \<noteq> map toupper A) (persisted_list reg)"
  show s: "stored (RemoveAlias reg A) =
           (if map toupper A \<in> fst ` set (persisted_list reg) then join_entries ?E1 else stored reg)"
    using w len by (simp add: RemoveAlias_eq Let_def stored_WriteRegSZ stored_unreadable)
  show "reg_writable (RemoveAlias reg A)"
    using w by (simp add: RemoveAlias_eq Let_def)
  show "persisted_list (RemoveAlias reg A) = ?E1"
  proof (cases "map toupper A \<in> fst ` set (persisted_list reg)")
    case True
    have "list_all valid_entry ?E1"
      by (rule list_all_filter_valid) (rule persisted_list_valid)
    then have "alias_entries (join_entries ?E1) = ?E1" by (rule alias_entries_join)
    with True s show ?thesis by (simp add: persisted_list_def)
  next
    case False
    then have "?E1 = persisted_list reg"
      by (force simp: filter_id_conv)
    with False s show ?thesis by (simp add: persisted_list_def)
  qed
qed

lemma AssignAlias_eq:
  "AssignAlias reg A S =
     (let reg1 = RemoveAlias reg A;
          reg2 = (if RegGetValueW reg1 = None \<and> reg_writable reg1
                  then RegSetValueExW reg1 [] else reg1)
      in snd (WriteRegSZ reg2
            (if RegGetValueW reg1 \<noteq> None \<or> reg_writable reg1
             then map toupper A @ ''='' @ map toupper S @
                    (if stored reg1 = [] then [] else '','') @ stored reg1
             else stored reg1)))"
proof -
  have "RemoveAlias reg (map toupper A) = RemoveAlias reg A"
    by (simp add: RemoveAlias_def)
  then show ?thesis
    by (simp add: AssignAlias_def ReadRegSZ_stored Let_def)
qed

lemma AssignAlias_stored:
  assumes w: "reg_writable reg" and A: "regex_alias_name A" and S: "regex_sernum S"
    and len: "length (map toupper A @ ''='' @ map toupper S @
                (if stored (RemoveAlias reg A) = [] then []
                 else '','' @ stored (RemoveAlias reg A))) < MAX_SZ_RESULT_LENGTH"
    and len1: "length (join_entries (filter (\<lambda>e. fst e \<noteq> map toupper A) (persisted_list reg)))
               < MAX_SZ_RESULT_LENGTH"
  shows "stored (AssignAlias reg A S) =
           map toupper A @ ''='' @ map toupper S @
             (if stored (RemoveAlias reg A) = [] then [] else '','' @ stored (RemoveAlias reg A))"
    and "reg_writable (AssignAlias reg A S)"
    and "persisted_list (AssignAlias reg A S) =
           (map toupper A, map toupper S) #
             filter (\<lambda>e. fst e \<noteq> map toupper A) (persisted_list reg)"
proof -
  let ?c = "stored (RemoveAlias reg A)"
  have w1: "reg_writable (RemoveAlias reg A)"
    by (rule RemoveAlias_stored(2) [OF w len1])
  show s: "stored (AssignAlias reg A S) =
           map toupper A @ ''='' @ map toupper S @ (if ?c = [] then [] else '','' @ ?c)"
    using w1 len
    by (simp add: AssignAlias_eq Let_def stored_WriteRegSZ stored_unreadable split: if_splits)
  show "reg_writable (AssignAlias reg A S)"
    using w1 by (simp add: AssignAlias_eq Let_def)
  have p: "alias_entries ?c = filter (\<lambda>e. fst e \<noteq> map toupper A) (persisted_list reg)"
    using RemoveAlias_stored(3) [OF w len1] by (simp add: persisted_list_def)
  have vA: "regex_alias_name (map toupper A)" and vS: "regex_sernum (map toupper S)"
    using A S by simp_all
  show "persisted_list (AssignAlias reg A S) =
           (map toupper A, map toupper S) #
             filter (\<lambda>e. fst e \<noteq> map toupper A) (persisted_list reg)"
  proof (cases "?c = []")
    case True
    with s p alias_entries_front(1) [OF vA vS] show ?thesis
      by (simp add: persisted_list_def)
  next
    case False
    with s p alias_entries_front(2) [OF vA vS, of ?c] show ?thesis
      by (simp add: persisted_list_def)
  qed
qed

subsection \<open>Listing, assigning a whole list\<close>

text \<open>
  \<^verbatim>\<open>ListAlias\<close> prints the persisted list; assigning a list of fresh aliases to an
  empty store writes the joined list, as long as it fits the buffer.
\<close>

lemma ListAlias_loop_None:
  "regex_search_alias_registry s = None \<Longrightarrow> ListAlias_loop s bFirst bFound out = (bFound, out)"
  by (subst ListAlias_loop.simps) simp

lemma ListAlias_loop_Some:
  "regex_search_alias_registry s = Some (m1, m2, suffix) \<Longrightarrow>
   ListAlias_loop s bFirst bFound out =
     ListAlias_loop suffix False True
       ((if bFirst then out else out @ [CHR 0x0A]) @ m1 @ ''='' @ m2)"
  by (subst ListAlias_loop.simps) simp

lemma ListAlias_loop_entries:
  "ListAlias_loop s bFirst bFound out =
     (bFound \<or> alias_entries s \<noteq> [], print_entries bFirst out (alias_entries s))"
proof (induction "length s" arbitrary: s bFirst bFound out rule: less_induct)
  case less
  show ?case
  proof (cases "regex_search_alias_registry s")
    case None
    then show ?thesis
      by (simp add: ListAlias_loop_None alias_entries_None)
  next
    case (Some m)
    obtain m1 m2 suffix where m: "m = (m1, m2, suffix)" by (cases m)
    with Some have hit: "regex_search_alias_registry s = Some (m1, m2, suffix)" by simp
    then have "length suffix < length s"
      by (rule regex_search_alias_registry_suffix)
    then have ih: "\<And>bFirst bFound out. ListAlias_loop suffix bFirst bFound out =
       (bFound \<or> alias_entries suffix \<noteq> [], print_entries bFirst out (alias_entries suffix))"
      by (rule less)
    show ?thesis
      by (simp add: ListAlias_loop_Some [OF hit] alias_entries_Some [OF hit] ih)
  qed
qed

lemma ListAlias_entries:
  "fst (ListAlias reg) =
     (if persisted_list reg = [] then ''No aliases defined'' @ [CHR 0x0A]
      else print_entries True [] (persisted_list reg))"
proof (cases "RegGetValueW reg \<noteq> None \<or> reg_writable reg")
  case True
  then show ?thesis
    by (simp add: ListAlias_def ReadRegSZ_stored ListAlias_loop_entries persisted_list_def)
next
  case False
  then have "stored reg = []" by (simp add: stored_def)
  with False show ?thesis
    by (simp add: ListAlias_def ReadRegSZ_stored persisted_list_def)
qed

lemma stored_Nil_persisted_list: "stored reg = [] \<Longrightarrow> persisted_list reg = []"
  by (simp add: persisted_list_def)

lemma length_join_entries_Cons: "length (join_entries es) \<le> length (join_entries (e # es))"
  by (simp add: join_entries_Cons)

lemma valid_entry_upper [simp]: "valid_entry (upper_entry e) = valid_entry e"
  by (simp add: valid_entry_def upper_entry_def)

lemma reg_writable_RemoveAlias [simp]: "reg_writable (RemoveAlias reg A) = reg_writable reg"
  by (simp add: RemoveAlias_eq Let_def)

lemma reg_writable_AssignAlias [simp]: "reg_writable (AssignAlias reg A S) = reg_writable reg"
  by (simp add: AssignAlias_eq Let_def)

lemma assign_all_stored:
  assumes "list_all valid_entry L" "distinct (map (\<lambda>e. map toupper (fst e)) L)"
    and "reg_writable reg" "stored reg = []"
    and "length (join_entries (map upper_entry L)) < MAX_SZ_RESULT_LENGTH"
  shows "reg_writable (assign_all reg L) \<and>
         stored (assign_all reg L) = join_entries (map upper_entry L) \<and>
         persisted_list (assign_all reg L) = map upper_entry L"
  using assms
proof (induction L)
  case Nil
  then show ?case by (simp add: assign_all_def stored_Nil_persisted_list)
next
  case (Cons e L)
  let ?X = "assign_all reg L"
  let ?a = "map toupper (fst e)"
  have le: "length (join_entries (map upper_entry L)) \<le>
            length (join_entries (map upper_entry (e # L)))"
    by (simp add: length_join_entries_Cons)
  with Cons.prems have "length (join_entries (map upper_entry L)) < MAX_SZ_RESULT_LENGTH"
    by simp
  with Cons have ih: "reg_writable ?X" "stored ?X = join_entries (map upper_entry L)"
    "persisted_list ?X = map upper_entry L"
    by simp_all
  from Cons.prems have fresh: "?a \<notin> fst ` set (persisted_list ?X)"
    by (force simp: ih upper_entry_def image_iff)
  then have f: "filter (\<lambda>x. fst x \<noteq> ?a) (persisted_list ?X) = persisted_list ?X"
    by (force simp: filter_id_conv)
  have len1: "length (join_entries (filter (\<lambda>x. fst x \<noteq> ?a) (persisted_list ?X)))
               < MAX_SZ_RESULT_LENGTH"
    unfolding f using ih le Cons.prems by simp
  have r: "stored (RemoveAlias ?X (fst e)) = join_entries (map upper_entry L)"
    using RemoveAlias_stored(1) [OF ih(1) len1] fresh unfolding f by (simp add: ih)
  have j: "?a @ ''='' @ map toupper (snd e) @
             (if stored (RemoveAlias ?X (fst e)) = [] then []
              else '','' @ stored (RemoveAlias ?X (fst e)))
           = join_entries (map upper_entry (e # L))"
    by (simp add: r join_entries_Cons upper_entry_def)
  have fit: "length (?a @ ''='' @ map toupper (snd e) @
             (if stored (RemoveAlias ?X (fst e)) = [] then []
              else '','' @ stored (RemoveAlias ?X (fst e)))) < MAX_SZ_RESULT_LENGTH"
    using Cons.prems by (simp only: j)
  from Cons.prems have v: "regex_alias_name (fst e)" "regex_sernum (snd e)"
    by (simp_all add: valid_entry_def)
  note step = AssignAlias_stored [OF ih(1) v fit len1]
  have eq: "assign_all reg (e # L) = AssignAlias ?X (fst e) (snd e)"
    by (simp add: assign_all_def)
  have "stored (assign_all reg (e # L)) = join_entries (map upper_entry (e # L))"
    using step(1) by (simp only: eq j)
  moreover have "persisted_list (assign_all reg (e # L)) = map upper_entry (e # L)"
    using step(3) unfolding f by (simp add: eq ih upper_entry_def)
  moreover have "reg_writable (assign_all reg (e # L))"
    using step(2) by (simp only: eq)
  ultimately show ?case by simp
qed

lemma stored_WriteRegSZ_overflow:
  "reg_writable reg \<Longrightarrow> MAX_SZ_RESULT_LENGTH \<le> length v \<Longrightarrow>
   stored (snd (WriteRegSZ reg v)) = []"
  by (simp add: WriteRegSZ_def RegSetValueExW_def stored_def RegGetValueW_def)

lemma AssignAlias_overflow:
  assumes w: "reg_writable reg"
    and len: "MAX_SZ_RESULT_LENGTH \<le> length (map toupper A @ ''='' @ map toupper S @
                (if stored (RemoveAlias reg A) = [] then []
                 else '','' @ stored (RemoveAlias reg A)))"
  shows "stored (AssignAlias reg A S) = []"
  using w len
  by (auto simp: AssignAlias_eq Let_def stored_WriteRegSZ_overflow
      dest: stored_unreadable split: if_splits)

lemma stored_nonempty: "stored reg = v \<Longrightarrow> v \<noteq> [] \<Longrightarrow> reg_value reg = Some v"
  by (auto simp: stored_def RegGetValueW_def split: option.splits if_splits)

lemma space_not_alias_char [simp]: "\<not> alias_char CHR '' ''"
  by (simp add: alias_char_def alias_first_char_def sernum_char_def)

lemma sernum_char_alias_char: "sernum_char c \<Longrightarrow> alias_char c"
  by (simp add: alias_char_def alias_first_char_def)

lemma regex_alias_name_chars: "regex_alias_name a \<Longrightarrow> c \<in> set a \<Longrightarrow> alias_char c"
  by (cases a) (auto simp: regex_alias_name_def list_all_iff alias_char_def)

lemma regex_sernum_chars: "regex_sernum n \<Longrightarrow> c \<in> set n \<Longrightarrow> sernum_char c"
  by (simp add: regex_sernum_def list_all_iff)

lemma join_entries_chars:
  "list_all valid_entry es \<Longrightarrow> c \<in> set (join_entries es) \<Longrightarrow>
   alias_char c \<or> c = CHR ''='' \<or> c = CHR '',''"
proof (induction es)
  case Nil
  then show ?case by simp
next
  case (Cons e es)
  then show ?case
    by (auto simp: join_entries_Cons valid_entry_def split: if_splits
        dest: regex_alias_name_chars regex_sernum_chars sernum_char_alias_char)
qed

lemma join_entries_last:
  "list_all valid_entry es \<Longrightarrow> es \<noteq> [] \<Longrightarrow> sernum_char (last (join_entries es))"
proof (induction es)
  case Nil
  then show ?case by simp
next
  case (Cons e es)
  from Cons.prems have r: "regex_sernum (snd e)" by (simp add: valid_entry_def)
  then have ne: "snd e \<noteq> []" by (auto simp: regex_sernum_def)
  then have "last (snd e) \<in> set (snd e)" by (rule last_in_set)
  with r have "sernum_char (last (snd e))" by (rule regex_sernum_chars)
  note n = ne this
  show ?case
  proof (cases "es = []")
    case True
    with n show ?thesis by (simp add: join_entries_Cons)
  next
    case False
    with Cons show ?thesis by (simp add: join_entries_Cons)
  qed
qed

subsection \<open>The command loops of main\<close>

text \<open>
  The commands exclude one another, a loop stops at the first error, and the
  \<^verbatim>\<open>ALIAS\<close> loop applies the valid arguments in turn.
\<close>

lemma toupper_literals [simp]:
  "toupper CHR ''/'' = CHR ''/''" "toupper CHR ''-'' = CHR ''-''"
  by (simp_all add: toupper_def)

lemma regex_help_upper:
  assumes "map toupper cmd = c # u" "c \<noteq> CHR ''/''" "c \<noteq> CHR ''-''"
  shows "regex_help cmd = (c # u \<in> set [''H'', ''HELP'', ''?''])"
proof -
  from assms(1) obtain x xs where x: "cmd = x # xs" "toupper x = c" "map toupper xs = u"
    by (cases cmd) auto
  with assms(2,3) have "x \<noteq> CHR ''/''" "x \<noteq> CHR ''-''" by auto
  with x show ?thesis unfolding regex_help_def by simp
qed

lemma regex_alias_not_other:
  "regex_alias cmd \<Longrightarrow> \<not> regex_help cmd \<and> \<not> regex_enumerate cmd"
  by (simp add: regex_alias_def regex_enumerate_def regex_help_upper)

lemma regex_set_not_other:
  "regex_set cmd \<Longrightarrow> \<not> regex_help cmd \<and> \<not> regex_enumerate cmd \<and> \<not> regex_alias cmd"
  by (simp add: regex_set_def regex_alias_def regex_enumerate_def regex_help_upper)

lemma arg_loop_error: "error (fst st) \<noteq> NONE \<Longrightarrow> arg_loop body args st = st"
  by (cases args) simp_all

lemma regex_search_alias_registry_Nil: "regex_search_alias_registry [] = None"
  by simp

lemma error_locals_init: "error locals_init = NONE"
  by (simp add: locals_init_def)

lemma alias_arg_token: "alias_token tok \<Longrightarrow> alias_arg tok (l, reg) = (l, alias_apply tok reg)"
  by (auto simp: alias_arg_def alias_token_def alias_apply_def split: option.splits)

lemma alias_arg_bad: "\<not> alias_token tok \<Longrightarrow> alias_arg tok (l, reg) = (l\<lparr>error := SYNTAX\<rparr>, reg)"
  by (auto simp: alias_arg_def alias_token_def split: option.splits)

lemma arg_loop_alias_tokens:
  "list_all alias_token ts \<Longrightarrow> error l = NONE \<Longrightarrow>
   arg_loop alias_arg (ts @ rest) (l, reg) = arg_loop alias_arg rest (l, fold alias_apply ts reg)"
  by (induction ts arbitrary: reg) (simp_all add: alias_arg_token)

lemma arg_loop_alias_all:
  assumes "list_all alias_token toks"
  shows "arg_loop alias_arg (rev toks) (locals_init, reg) =
           (locals_init, foldr alias_apply toks reg)"
proof -
  have "list_all alias_token (rev toks)" using assms by (simp add: list_all_iff)
  moreover have "error locals_init = NONE" by (simp add: locals_init_def)
  ultimately have "arg_loop alias_arg (rev toks @ []) (locals_init, reg) =
      arg_loop alias_arg [] (locals_init, fold alias_apply (rev toks) reg)"
    by (rule arg_loop_alias_tokens)
  then show ?thesis by (simp add: foldr_conv_fold)
qed

lemma arg_loop_alias_stop:
  assumes "list_all alias_token post" and "\<not> alias_token bad"
  shows "arg_loop alias_arg (rev (pre @ bad # post)) (locals_init, reg) =
           (locals_init\<lparr>error := SYNTAX\<rparr>, foldr alias_apply post reg)"
proof -
  have v: "list_all alias_token (rev post)" using assms(1) by (simp add: list_all_iff)
  have e: "error locals_init = NONE" by (simp add: locals_init_def)
  have "arg_loop alias_arg (rev post @ bad # rev pre) (locals_init, reg) =
      arg_loop alias_arg (bad # rev pre) (locals_init, fold alias_apply (rev post) reg)"
    using v e by (rule arg_loop_alias_tokens)
  also have "\<dots> = arg_loop alias_arg (rev pre)
      (locals_init\<lparr>error := SYNTAX\<rparr>, fold alias_apply (rev post) reg)"
    using e by (simp add: alias_arg_bad [OF assms(2)])
  also have "\<dots> = (locals_init\<lparr>error := SYNTAX\<rparr>, fold alias_apply (rev post) reg)"
    by (rule arg_loop_error) simp
  finally show ?thesis by (simp add: foldr_conv_fold)
qed

lemma channel_char_alias_char: "channel_char c \<Longrightarrow> alias_char c"
  by (auto simp: channel_char_def alias_char_def alias_first_char_def sernum_char_def)

lemma regex_ch_set_not_device:
  assumes "regex_ch_set tok \<noteq> None"
  shows "\<not> regex_alias_name tok \<and> regex_sernum_pattern tok = None"
proof -
  from assms obtain c p where t: "tok = c # CHR ''='' # p" and c: "channel_char c"
    by (auto simp: regex_ch_set_def split: list.splits if_splits)
  from c have "alias_char c" by (rule channel_char_alias_char)
  with t show ?thesis
    by (simp add: regex_alias_name_def regex_sernum_pattern_def)
qed

lemma set_arg_no_device:
  "\<not> regex_alias_name t \<Longrightarrow> regex_sernum_pattern t = None \<Longrightarrow> cur_sn l = [] \<Longrightarrow>
   set_arg chans t (l, reg) = (l\<lparr>error := SYNTAX\<rparr>, reg)"
  by (simp add: set_arg_def split: option.splits)


subsection \<open>Patterns of the SET command\<close>









lemma colon_not_alias_char: "\<not> alias_char CHR '':''"
  by simp






text \<open>
  Every command other than \<^verbatim>\<open>HELP\<close> and \<^verbatim>\<open>ENUMERATE\<close> is dispatched inside
  \<^verbatim>\<open>if (Relays_Get_Sernums(channels))\<close>: when the enumeration finds no module, the
  arguments are not looked at.
\<close>

lemma main_enumeration_gate:
  assumes "\<not> regex_help cmd" and "\<not> regex_enumerate cmd" and "drv_devices drv = []"
  shows "main drv prog (cmd # args) w =
           (NO_DEVICES,
            w\<lparr>w_calls := w_calls w @ [usb_relay_init, usb_relay_device_enumerate,
                                      usb_relay_exit],
              w_cerr := w_cerr w @ ''No devices found''\<rparr>)"
  using assms
  by (simp add: main_def main_parse_def Relays_Get_Sernums_def locals_init_def)

section \<open>The claims\<close>

text \<open>
  C1. For an alias \<open>A\<close> and serial numbers \<open>S1\<close>, \<open>S2\<close>: after
  \<^verbatim>\<open>AssignAlias(A,S1)\<close> and \<^verbatim>\<open>AssignAlias(A,S2)\<close> the persisted list has exactly one
  entry for \<open>A\<close>, at its head, the other entries are kept, and
  \<^verbatim>\<open>GetAliasSernum(A)\<close> is \<open>S2\<close> (both fields in upper case). This holds as long as
  the setting stays below \<^verbatim>\<open>MAX_SZ_RESULT_LENGTH\<close> characters: the list as stored, and
  as the program would write it again, with room for the new entry and its comma.
\<close>

theorem AssignAlias_twice:
  assumes A: "regex_alias_name A" and S1: "regex_sernum S1" and S2: "regex_sernum S2"
    and w: "reg_writable reg"
    and raw: "length A + 7 + length (stored reg) < MAX_SZ_RESULT_LENGTH"
    and ser: "length A + 7 + length (join_entries (persisted_list reg)) < MAX_SZ_RESULT_LENGTH"
  shows "persisted_list (AssignAlias (AssignAlias reg A S1) A S2) =
           (map toupper A, map toupper S2) #
             filter (\<lambda>e. fst e \<noteq> map toupper A) (persisted_list reg) \<and>
         length (filter (\<lambda>e. fst e = map toupper A)
                   (persisted_list (AssignAlias (AssignAlias reg A S1) A S2))) = 1 \<and>
         fst (GetAliasSernum (AssignAlias (AssignAlias reg A S1) A S2) A) = map toupper S2"
proof -
  let ?a = "map toupper A"
  let ?E1 = "filter (\<lambda>e. fst e \<noteq> ?a) (persisted_list reg)"
  let ?reg1 = "AssignAlias reg A S1"
  let ?reg2 = "AssignAlias ?reg1 A S2"
  have le: "length (join_entries ?E1) \<le> length (join_entries (persisted_list reg))"
    by (rule length_join_entries_filter)
  with ser have len1: "length (join_entries ?E1) < MAX_SZ_RESULT_LENGTH" by simp
  have c: "length A + 7 + length (stored (RemoveAlias reg A)) < MAX_SZ_RESULT_LENGTH"
    using le raw ser by (auto simp: RemoveAlias_stored(1) [OF w len1])
  from S1 S2 have l5: "length S1 = 5" "length S2 = 5" by (simp_all add: regex_sernum_def)
  have fit1: "length (?a @ ''='' @ map toupper S1 @
                (if stored (RemoveAlias reg A) = [] then []
                 else '','' @ stored (RemoveAlias reg A))) < MAX_SZ_RESULT_LENGTH"
    using c l5 by simp
  note first = AssignAlias_stored [OF w A S1 fit1 len1]
  have p1: "persisted_list ?reg1 = (?a, map toupper S1) # ?E1" by (rule first(3))
  have w1: "reg_writable ?reg1" by (rule first(2))
  have f1: "filter (\<lambda>e. fst e \<noteq> ?a) (persisted_list ?reg1) = ?E1"
    by (simp add: p1)
  have len2: "length (join_entries (filter (\<lambda>e. fst e \<noteq> ?a) (persisted_list ?reg1)))
                < MAX_SZ_RESULT_LENGTH"
    using len1 by (simp add: f1)
  have r2: "stored (RemoveAlias ?reg1 A) = join_entries ?E1"
    using RemoveAlias_stored(1) [OF w1 len2] by (simp add: p1)
  have fit2: "length (?a @ ''='' @ map toupper S2 @
                (if stored (RemoveAlias ?reg1 A) = [] then []
                 else '','' @ stored (RemoveAlias ?reg1 A))) < MAX_SZ_RESULT_LENGTH"
    using le ser l5 by (simp add: r2)
  note second = AssignAlias_stored [OF w1 A S2 fit2 len2]
  have p2: "persisted_list ?reg2 = (?a, map toupper S2) # ?E1"
    using second(3) by (simp add: f1)
  have "filter (\<lambda>e. fst e = ?a) ?E1 = []"
    by (simp add: filter_empty_conv)
  with p2 have one: "length (filter (\<lambda>e. fst e = ?a) (persisted_list ?reg2)) = 1"
    by simp
  have "fst (GetAliasSernum ?reg2 A) = map toupper S2"
    by (simp add: GetAliasSernum_map_of p2)
  with p2 one show ?thesis by simp
qed

theorem AssignAlias_twice_witness:
  "regex_alias_name ''#1'' \<and> regex_sernum ''6vxat'' \<and> regex_sernum ''5xarz'' \<and>
   reg_writable \<lparr>reg_value = Some ''#2=5XARZ,#1=6QMBS'', reg_writable = True, reg_writes = []\<rparr> \<and>
   length ''#1'' + 7 + length (stored \<lparr>reg_value = Some ''#2=5XARZ,#1=6QMBS'', reg_writable = True, reg_writes = []\<rparr>) < MAX_SZ_RESULT_LENGTH \<and>
   length ''#1'' + 7 + length (join_entries (persisted_list \<lparr>reg_value = Some ''#2=5XARZ,#1=6QMBS'', reg_writable = True, reg_writes = []\<rparr>)) < MAX_SZ_RESULT_LENGTH \<and>
   persisted_list (AssignAlias (AssignAlias \<lparr>reg_value = Some ''#2=5XARZ,#1=6QMBS'', reg_writable = True, reg_writes = []\<rparr> ''#1'' ''6vxat'') ''#1'' ''5xarz'') =
     [(''#1'', ''5XARZ''), (''#2'', ''5XARZ'')] \<and>
   fst (GetAliasSernum (AssignAlias (AssignAlias \<lparr>reg_value = Some ''#2=5XARZ,#1=6QMBS'', reg_writable = True, reg_writes = []\<rparr> ''#1'' ''6vxat'') ''#1'' ''5xarz'') ''#1'')
     = ''5XARZ''"
proof -
  let ?r = "\<lparr>reg_value = Some ''#2=5XARZ,#1=6QMBS'', reg_writable = True, reg_writes = []\<rparr>"
  have h: "regex_alias_name ''#1''" "regex_sernum ''6vxat''" "regex_sernum ''5xarz''"
    "reg_writable ?r"
    "length ''#1'' + 7 + length (stored ?r) < MAX_SZ_RESULT_LENGTH"
    "length ''#1'' + 7 + length (join_entries (persisted_list ?r)) < MAX_SZ_RESULT_LENGTH"
    by code_simp+
  have e: "(map toupper ''#1'', map toupper ''5xarz'') #
             filter (\<lambda>e. fst e \<noteq> map toupper ''#1'') (persisted_list ?r) =
           [(''#1'', ''5XARZ''), (''#2'', ''5XARZ'')]"
    and u: "map toupper ''5xarz'' = ''5XARZ''"
    by code_simp+
  from AssignAlias_twice [OF h] e u h show ?thesis by metis
qed

text \<open>
  C1 as stated, for every alias, fails for an alias of 250 characters: the entry does
  not fit the buffer of \<^verbatim>\<open>WriteRegSZ\<close>, the truncated setting cannot be read back,
  and \<^verbatim>\<open>GetAliasSernum\<close> returns the empty string.
\<close>

theorem AssignAlias_twice_long_alias:
  "regex_alias_name (replicate 250 CHR ''A'') \<and> regex_sernum ''11111'' \<and>
   regex_sernum ''22222'' \<and>
   fst (GetAliasSernum
          (AssignAlias
             (AssignAlias \<lparr>reg_value = None, reg_writable = True, reg_writes = []\<rparr>
                (replicate 250 CHR ''A'') ''11111'')
             (replicate 250 CHR ''A'') ''22222'')
          (replicate 250 CHR ''A'')) = []"
proof -
  let ?A = "replicate 250 CHR ''A''"
  let ?r0 = "\<lparr>reg_value = None, reg_writable = True, reg_writes = []\<rparr>"
  let ?r1 = "AssignAlias ?r0 ?A ''11111''"
  let ?r2 = "AssignAlias ?r1 ?A ''22222''"
  have "?A = CHR ''A'' # replicate 249 CHR ''A''"
    by (simp add: replicate_Suc [symmetric] del: replicate_Suc)
  moreover have "regex_alias_name (CHR ''A'' # replicate 249 CHR ''A'')"
    by (simp add: regex_alias_name_def list_all_iff alias_char_def alias_first_char_def
        sernum_char_def)
  ultimately have a: "regex_alias_name ?A" by simp
  have s: "regex_sernum ''11111''" "regex_sernum ''22222''" by code_simp+
  have w1: "reg_writable ?r1" by simp
  have "stored ?r2 = []"
    by (rule AssignAlias_overflow [OF w1]) (simp add: MAX_SZ_RESULT_LENGTH_def)
  then have "persisted_list ?r2 = []" by (rule stored_Nil_persisted_list)
  then have "fst (GetAliasSernum ?r2 ?A) = []"
    by (simp add: GetAliasSernum_map_of regex_sernum_def)
  with a s show ?thesis by simp
qed

text \<open>
  C2. For a list \<open>L\<close> of entries with pairwise distinct alias keys (aliases are compared
  in upper case), saving \<open>L\<close> writes the \<^verbatim>\<open>ALIAS=SERNUM\<close> pairs joined by commas, with
  no trailing comma and no space, and the program reads the upper-case normalisation of
  \<open>L\<close> back from it, as long as that string is shorter than
  \<^verbatim>\<open>MAX_SZ_RESULT_LENGTH\<close>.
\<close>

theorem assign_all_roundtrip:
  assumes "list_all valid_entry L"
    and "distinct (map (\<lambda>e. map toupper (fst e)) L)"
    and "reg_writable reg" and "stored reg = []"
    and "length (join_entries (map upper_entry L)) < MAX_SZ_RESULT_LENGTH"
  shows "stored (assign_all reg L) = join_entries (map upper_entry L) \<and>
         CHR '' '' \<notin> set (stored (assign_all reg L)) \<and>
         (L \<noteq> [] \<longrightarrow>
            reg_value (assign_all reg L) = Some (join_entries (map upper_entry L)) \<and>
            last (stored (assign_all reg L)) \<noteq> CHR '','') \<and>
         persisted_list (assign_all reg L) = map upper_entry L"
proof -
  let ?s = "join_entries (map upper_entry L)"
  note a = assign_all_stored [OF assms]
  then have st: "stored (assign_all reg L) = ?s" by simp
  from assms(1) have v: "list_all valid_entry (map upper_entry L)"
    by (simp add: list_all_iff)
  have sp: "CHR '' '' \<notin> set ?s"
    using join_entries_chars [OF v, of "CHR '' ''"] by auto
  have ne: "L \<noteq> [] \<longrightarrow> reg_value (assign_all reg L) = Some ?s \<and> last ?s \<noteq> CHR '',''"
  proof
    assume "L \<noteq> []"
    then have "?s \<noteq> []" by simp
    with st have "reg_value (assign_all reg L) = Some ?s" by (rule stored_nonempty)
    moreover from \<open>L \<noteq> []\<close> have "sernum_char (last ?s)"
      using join_entries_last [OF v] by simp
    then have "last ?s \<noteq> CHR '',''" by auto
    ultimately show "reg_value (assign_all reg L) = Some ?s \<and> last ?s \<noteq> CHR '',''" by simp
  qed
  from a sp ne show ?thesis by simp
qed

theorem assign_all_roundtrip_witness:
  "list_all valid_entry [(''#2'', ''5xarz''), (''#1'', ''6QMBS'')] \<and>
   distinct (map (\<lambda>e. map toupper (fst e)) [(''#2'', ''5xarz''), (''#1'', ''6QMBS'')]) \<and>
   reg_writable \<lparr>reg_value = None, reg_writable = True, reg_writes = []\<rparr> \<and> stored \<lparr>reg_value = None, reg_writable = True, reg_writes = []\<rparr> = [] \<and>
   length (join_entries (map upper_entry [(''#2'', ''5xarz''), (''#1'', ''6QMBS'')]))
     < MAX_SZ_RESULT_LENGTH \<and>
   reg_value (assign_all \<lparr>reg_value = None, reg_writable = True, reg_writes = []\<rparr> [(''#2'', ''5xarz''), (''#1'', ''6QMBS'')]) =
     Some ''#2=5XARZ,#1=6QMBS'' \<and>
   persisted_list (assign_all \<lparr>reg_value = None, reg_writable = True, reg_writes = []\<rparr> [(''#2'', ''5xarz''), (''#1'', ''6QMBS'')]) =
     [(''#2'', ''5XARZ''), (''#1'', ''6QMBS'')]"
proof -
  let ?L = "[(''#2'', ''5xarz''), (''#1'', ''6QMBS'')]"
  let ?r = "\<lparr>reg_value = None, reg_writable = True, reg_writes = []\<rparr>"
  have h: "list_all valid_entry ?L" "distinct (map (\<lambda>e. map toupper (fst e)) ?L)"
    "reg_writable ?r" "stored ?r = []"
    "length (join_entries (map upper_entry ?L)) < MAX_SZ_RESULT_LENGTH"
    by code_simp+
  have e: "join_entries (map upper_entry ?L) = ''#2=5XARZ,#1=6QMBS''"
    "map upper_entry ?L = [(''#2'', ''5XARZ''), (''#1'', ''6QMBS'')]"
    "?L \<noteq> []"
    by code_simp+
  from assign_all_roundtrip [OF h] e h show ?thesis by metis
qed

text \<open>
  C2 as stated, for every list, fails for the twenty-seven aliases \<^verbatim>\<open>#1\<close> to
  \<^verbatim>\<open>#27\<close>: the string is 260 characters long, it is cut to
  \<^verbatim>\<open>MAX_SZ_RESULT_LENGTH\<close> on writing, and no entry can be read back.
\<close>

theorem assign_all_overflow:
  "list_all valid_entry
     [(''#27'', ''12345''), (''#26'', ''12345''), (''#25'', ''12345''), (''#24'',
      ''12345''), (''#23'', ''12345''), (''#22'', ''12345''), (''#21'', ''12345''),
      (''#20'', ''12345''), (''#19'', ''12345''), (''#18'', ''12345''), (''#17'',
      ''12345''), (''#16'', ''12345''), (''#15'', ''12345''), (''#14'', ''12345''),
      (''#13'', ''12345''), (''#12'', ''12345''), (''#11'', ''12345''), (''#10'',
      ''12345''), (''#9'', ''12345''), (''#8'', ''12345''), (''#7'', ''12345''),
      (''#6'', ''12345''), (''#5'', ''12345''), (''#4'', ''12345''), (''#3'',
      ''12345''), (''#2'', ''12345''), (''#1'', ''12345'')] \<and>
   distinct (map fst
     [(''#27'', ''12345''), (''#26'', ''12345''), (''#25'', ''12345''), (''#24'',
      ''12345''), (''#23'', ''12345''), (''#22'', ''12345''), (''#21'', ''12345''),
      (''#20'', ''12345''), (''#19'', ''12345''), (''#18'', ''12345''), (''#17'',
      ''12345''), (''#16'', ''12345''), (''#15'', ''12345''), (''#14'', ''12345''),
      (''#13'', ''12345''), (''#12'', ''12345''), (''#11'', ''12345''), (''#10'',
      ''12345''), (''#9'', ''12345''), (''#8'', ''12345''), (''#7'', ''12345''),
      (''#6'', ''12345''), (''#5'', ''12345''), (''#4'', ''12345''), (''#3'',
      ''12345''), (''#2'', ''12345''), (''#1'', ''12345'')]) \<and>
   persisted_list
     (assign_all \<lparr>reg_value = None, reg_writable = True, reg_writes = []\<rparr>
        [(''#27'', ''12345''), (''#26'', ''12345''), (''#25'', ''12345''), (''#24'',
      ''12345''), (''#23'', ''12345''), (''#22'', ''12345''), (''#21'', ''12345''),
      (''#20'', ''12345''), (''#19'', ''12345''), (''#18'', ''12345''), (''#17'',
      ''12345''), (''#16'', ''12345''), (''#15'', ''12345''), (''#14'', ''12345''),
      (''#13'', ''12345''), (''#12'', ''12345''), (''#11'', ''12345''), (''#10'',
      ''12345''), (''#9'', ''12345''), (''#8'', ''12345''), (''#7'', ''12345''),
      (''#6'', ''12345''), (''#5'', ''12345''), (''#4'', ''12345''), (''#3'',
      ''12345''), (''#2'', ''12345''), (''#1'', ''12345'')]) = []"
proof -
  let ?r0 = "\<lparr>reg_value = None, reg_writable = True, reg_writes = []\<rparr>"
  let ?L = "[(''#26'', ''12345''), (''#25'', ''12345''), (''#24'', ''12345''), (''#23'',
      ''12345''), (''#22'', ''12345''), (''#21'', ''12345''), (''#20'', ''12345''),
      (''#19'', ''12345''), (''#18'', ''12345''), (''#17'', ''12345''), (''#16'',
      ''12345''), (''#15'', ''12345''), (''#14'', ''12345''), (''#13'', ''12345''),
      (''#12'', ''12345''), (''#11'', ''12345''), (''#10'', ''12345''), (''#9'',
      ''12345''), (''#8'', ''12345''), (''#7'', ''12345''), (''#6'', ''12345''),
      (''#5'', ''12345''), (''#4'', ''12345''), (''#3'', ''12345''), (''#2'',
      ''12345''), (''#1'', ''12345'')]"
  let ?X = "assign_all ?r0 ?L"
  have v: "list_all valid_entry ((''#27'', ''12345'') # ?L)"
    and d: "distinct (map fst ((''#27'', ''12345'') # ?L))"
    by code_simp+
  have h1: "list_all valid_entry ?L"
    and h2: "distinct (map (\<lambda>e. map toupper (fst e)) ?L)"
    and h3: "reg_writable ?r0" and h4: "stored ?r0 = []"
    and h5: "length (join_entries (map upper_entry ?L)) < MAX_SZ_RESULT_LENGTH"
    by code_simp+
  note X = assign_all_stored [OF h1 h2 h3 h4 h5]
  have n: "length (join_entries (map upper_entry ?L)) = 250" by code_simp
  have fresh: "map toupper ''#27'' \<notin> fst ` set (map upper_entry ?L)" by code_simp
  have len1: "length (join_entries (filter (\<lambda>e. fst e \<noteq> map toupper ''#27'')
                 (persisted_list ?X))) < MAX_SZ_RESULT_LENGTH"
    using length_join_entries_filter [of "\<lambda>e. fst e \<noteq> map toupper ''#27''" "persisted_list ?X"]
      h5 X by simp
  have c: "stored (RemoveAlias ?X ''#27'') = stored ?X"
    using RemoveAlias_stored(1) [OF conjunct1 [OF X] len1] fresh X by simp
  have "stored (AssignAlias ?X ''#27'' ''12345'') = []"
  proof (rule AssignAlias_overflow)
    show "reg_writable ?X" using X by simp
    have "length (stored ?X) = 250" using X n by simp
    then show "MAX_SZ_RESULT_LENGTH \<le> length (map toupper ''#27'' @ ''='' @ map toupper ''12345'' @
                (if stored (RemoveAlias ?X ''#27'') = [] then []
                 else '','' @ stored (RemoveAlias ?X ''#27'')))"
      unfolding c by (auto simp: MAX_SZ_RESULT_LENGTH_def)
  qed
  then have "persisted_list (AssignAlias ?X ''#27'' ''12345'') = []"
    by (rule stored_Nil_persisted_list)
  then have "persisted_list (assign_all ?r0 ((''#27'', ''12345'') # ?L)) = []"
    by (simp add: assign_all_def)
  with v d show ?thesis by simp
qed

text \<open>
  C3. \<^verbatim>\<open>GetAliasSernum\<close> converts the token to upper case and looks it up among the
  alias names of the persisted list first; only when no entry has that name does it
  test the token against the serial-number pattern. So, for a token \<open>S\<close> that matches
  the serial-number pattern, in either case, the result is the serial number of the
  first entry whose alias name is \<open>S\<close> in upper case, and \<open>S\<close> in upper case when
  there is no such entry (\<open>S\<close> itself when it is written in upper case). The entries
  whose serial number is \<open>S\<close>, the aliases bound to \<open>S\<close>, play no part.
\<close>

theorem GetAliasSernum_unaliased_sernum:
  assumes "regex_sernum S"
  shows "fst (GetAliasSernum reg S) =
           (case map_of (persisted_list reg) (map toupper S) of
              Some sernum \<Rightarrow> sernum
            | None \<Rightarrow> map toupper S) \<and>
         (map toupper S \<notin> fst ` set (persisted_list reg) \<longrightarrow>
            fst (GetAliasSernum reg S) = map toupper S)"
  using assms
  by (simp add: GetAliasSernum_map_of map_of_eq_None_iff [THEN iffD2])

theorem GetAliasSernum_unaliased_sernum_witness:
  "regex_sernum ''6QMBS'' \<and>
   map toupper ''6QMBS'' \<notin> fst ` set (persisted_list \<lparr>reg_value = Some ''#2=5XARZ'', reg_writable = True, reg_writes = []\<rparr>) \<and>
   ''6QMBS'' \<notin> snd ` set (persisted_list \<lparr>reg_value = Some ''#2=5XARZ'', reg_writable = True, reg_writes = []\<rparr>) \<and>
   fst (GetAliasSernum \<lparr>reg_value = Some ''#2=5XARZ'', reg_writable = True, reg_writes = []\<rparr> ''6QMBS'') = ''6QMBS''"
proof -
  let ?r = "\<lparr>reg_value = Some ''#2=5XARZ'', reg_writable = True, reg_writes = []\<rparr>"
  have h: "regex_sernum ''6QMBS''" by code_simp
  have f: "map toupper ''6QMBS'' \<notin> fst ` set (persisted_list ?r)"
    and s: "''6QMBS'' \<notin> snd ` set (persisted_list ?r)"
    by code_simp+
  have u: "map toupper ''6QMBS'' = ''6QMBS''" by code_simp
  from GetAliasSernum_unaliased_sernum [OF h, of ?r] f
  have "fst (GetAliasSernum ?r ''6QMBS'') = map toupper ''6QMBS''" by blast
  then have "fst (GetAliasSernum ?r ''6QMBS'') = ''6QMBS''" unfolding u .
  with h f s show ?thesis by blast
qed

text \<open>
  C3 as stated, returning \<open>S\<close> itself whenever no alias is bound to \<open>S\<close>, fails in two
  ways. With the store \<^verbatim>\<open>6QMBS=5XARZ\<close>, no alias is bound to the serial number
  \<^verbatim>\<open>6QMBS\<close>, yet the token \<^verbatim>\<open>6QMBS\<close> is itself the name of an alias and comes back
  as \<^verbatim>\<open>5XARZ\<close>: the alias table is searched before the serial-number pattern is
  tried. And with no alias at all, the token \<^verbatim>\<open>6qmbs\<close> in lower case comes back as
  \<^verbatim>\<open>6QMBS\<close>.
\<close>

theorem GetAliasSernum_shadowed_or_lower_case:
  "regex_sernum ''6QMBS'' \<and>
   persisted_list \<lparr>reg_value = Some ''6QMBS=5XARZ'', reg_writable = True, reg_writes = []\<rparr> = [(''6QMBS'', ''5XARZ'')] \<and>
   ''6QMBS'' \<notin> snd ` set (persisted_list \<lparr>reg_value = Some ''6QMBS=5XARZ'', reg_writable = True, reg_writes = []\<rparr>) \<and>
   fst (GetAliasSernum \<lparr>reg_value = Some ''6QMBS=5XARZ'', reg_writable = True, reg_writes = []\<rparr> ''6QMBS'') = ''5XARZ'' \<and>
   ''5XARZ'' \<noteq> ''6QMBS'' \<and>
   regex_sernum ''6qmbs'' \<and>
   persisted_list \<lparr>reg_value = None, reg_writable = True, reg_writes = []\<rparr> = [] \<and>
   fst (GetAliasSernum \<lparr>reg_value = None, reg_writable = True, reg_writes = []\<rparr> ''6qmbs'') = ''6QMBS'' \<and>
   ''6QMBS'' \<noteq> ''6qmbs''"
  by code_simp

text \<open>
  C4. For \<^verbatim>\<open>query TOKEN@CHANNELS\<close>, a channel digit above the channel count of the
  module should end the command with \<^verbatim>\<open>INVALID_CHANNEL\<close>. The code does not:
  \<^verbatim>\<open>main\<close> compares only the number of digits with the channel count, and
  \<^verbatim>\<open>Relays_Query\<close> skips the digit. On a module with two channels,
  \<^verbatim>\<open>query 6QMBS@8\<close> ends with \<^verbatim>\<open>NONE\<close> and prints a single space, while the
  sibling path \<^verbatim>\<open>set 6QMBS 8=ON\<close> ends with \<^verbatim>\<open>INVALID_CHANNEL\<close>.
\<close>

theorem main_query_channel_beyond_count:
  "main \<lparr>drv_init_ok = True, drv_devices = [(''6QMBS'', 2)], drv_handles = [(''6QMBS'', 3)]\<rparr> ''Relay.exe'' [''query'', ''6QMBS@8''] \<lparr>w_reg = \<lparr>reg_value = None, reg_writable = True, reg_writes = []\<rparr>, w_calls = [], w_cout = [], w_cerr = []\<rparr> =
     (NONE,
      \<lparr>w_reg = \<lparr>reg_value = Some [], reg_writable = True, reg_writes = [[]]\<rparr>,
         w_calls = [usb_relay_init, usb_relay_device_enumerate, usb_relay_device_free_enumerate, usb_relay_exit, usb_relay_init,
                    usb_relay_device_open_with_serial_number ''6QMBS'',
                    usb_relay_device_get_status, usb_relay_device_close, usb_relay_exit],
         w_cout = '' '', w_cerr = []\<rparr>) \<and>
   main \<lparr>drv_init_ok = True, drv_devices = [(''6QMBS'', 2)], drv_handles = [(''6QMBS'', 3)]\<rparr> ''Relay.exe'' [''set'', ''6QMBS'', ''8=ON''] \<lparr>w_reg = \<lparr>reg_value = None, reg_writable = True, reg_writes = []\<rparr>, w_calls = [], w_cout = [], w_cerr = []\<rparr> =
     (INVALID_CHANNEL,
      \<lparr>w_reg = \<lparr>reg_value = Some [], reg_writable = True, reg_writes = [[]]\<rparr>,
         w_calls = [usb_relay_init, usb_relay_device_enumerate, usb_relay_device_free_enumerate, usb_relay_exit],
         w_cout = [], w_cerr = ''Invalid channel specified''\<rparr>)"
  by code_simp






text \<open>
  C7. Starting from an empty store, after \<^verbatim>\<open>AssignAlias("#1","6QMBS")\<close> and
  \<^verbatim>\<open>AssignAlias("#2","5XARZ")\<close> the persisted list is \<^verbatim>\<open>#2=5XARZ\<close> then
  \<^verbatim>\<open>#1=6QMBS\<close>, and \<^verbatim>\<open>ListAlias\<close> prints them in that order.
\<close>

theorem AssignAlias_prepends:
  assumes w: "reg_writable reg" and e: "stored reg = []"
  shows "persisted_list (AssignAlias (AssignAlias reg ''#1'' ''6QMBS'') ''#2'' ''5XARZ'') =
           [(''#2'', ''5XARZ''), (''#1'', ''6QMBS'')] \<and>
         fst (ListAlias (AssignAlias (AssignAlias reg ''#1'' ''6QMBS'') ''#2'' ''5XARZ'')) =
           ''#2=5XARZ'' @ [CHR 0x0A] @ ''#1=6QMBS''"
proof -
  let ?reg1 = "AssignAlias reg ''#1'' ''6QMBS''"
  let ?reg2 = "AssignAlias ?reg1 ''#2'' ''5XARZ''"
  have a1: "regex_alias_name ''#1''" and a2: "regex_alias_name ''#2''"
    and s1: "regex_sernum ''6QMBS''" and s2: "regex_sernum ''5XARZ''"
    by code_simp+
  have u: "map toupper ''#1'' = ''#1''" "map toupper ''6QMBS'' = ''6QMBS''"
    "map toupper ''#2'' = ''#2''" "map toupper ''5XARZ'' = ''5XARZ''"
    by code_simp+
  from e have p0: "persisted_list reg = []" by (rule stored_Nil_persisted_list)
  have len0: "length (join_entries (filter (\<lambda>e. fst e \<noteq> map toupper ''#1'') (persisted_list reg)))
                < MAX_SZ_RESULT_LENGTH"
    unfolding p0 by (simp add: MAX_SZ_RESULT_LENGTH_def)
  have r0: "stored (RemoveAlias reg ''#1'') = []"
    using RemoveAlias_stored(1) [OF w len0] unfolding p0 e by simp
  have fit1: "length (map toupper ''#1'' @ ''='' @ map toupper ''6QMBS'' @
                (if stored (RemoveAlias reg ''#1'') = [] then []
                 else '','' @ stored (RemoveAlias reg ''#1''))) < MAX_SZ_RESULT_LENGTH"
    unfolding u r0 by (simp add: MAX_SZ_RESULT_LENGTH_def)
  note first = AssignAlias_stored [OF w a1 s1 fit1 len0]
  have st1: "stored ?reg1 = ''#1=6QMBS''"
    using first(1) unfolding u r0 by simp
  have p1: "persisted_list ?reg1 = [(''#1'', ''6QMBS'')]"
    using first(3) unfolding u p0 by simp
  have w1: "reg_writable ?reg1" by (rule first(2))
  have len1: "length (join_entries (filter (\<lambda>e. fst e \<noteq> map toupper ''#2'') (persisted_list ?reg1)))
                < MAX_SZ_RESULT_LENGTH"
    unfolding u p1 by (simp add: MAX_SZ_RESULT_LENGTH_def)
  have r1: "stored (RemoveAlias ?reg1 ''#2'') = ''#1=6QMBS''"
    using RemoveAlias_stored(1) [OF w1 len1] unfolding u p1 st1 by simp
  have fit2: "length (map toupper ''#2'' @ ''='' @ map toupper ''5XARZ'' @
                (if stored (RemoveAlias ?reg1 ''#2'') = [] then []
                 else '','' @ stored (RemoveAlias ?reg1 ''#2''))) < MAX_SZ_RESULT_LENGTH"
    unfolding u r1 by (simp add: MAX_SZ_RESULT_LENGTH_def)
  note second = AssignAlias_stored [OF w1 a2 s2 fit2 len1]
  have p2: "persisted_list ?reg2 = [(''#2'', ''5XARZ''), (''#1'', ''6QMBS'')]"
    using second(3) unfolding u p1 by simp
  then have "fst (ListAlias ?reg2) = ''#2=5XARZ'' @ [CHR 0x0A] @ ''#1=6QMBS''"
    by (simp add: ListAlias_entries)
  with p2 show ?thesis by simp
qed

theorem AssignAlias_prepends_witness:
  "reg_writable \<lparr>reg_value = None, reg_writable = True, reg_writes = []\<rparr> \<and> stored \<lparr>reg_value = None, reg_writable = True, reg_writes = []\<rparr> = [] \<and>
   persisted_list (AssignAlias (AssignAlias \<lparr>reg_value = None, reg_writable = True, reg_writes = []\<rparr> ''#1'' ''6QMBS'') ''#2'' ''5XARZ'') =
     [(''#2'', ''5XARZ''), (''#1'', ''6QMBS'')] \<and>
   fst (ListAlias (AssignAlias (AssignAlias \<lparr>reg_value = None, reg_writable = True, reg_writes = []\<rparr> ''#1'' ''6QMBS'') ''#2'' ''5XARZ'')) =
     ''#2=5XARZ'' @ [CHR 0x0A] @ ''#1=6QMBS''"
proof -
  let ?r = "\<lparr>reg_value = None, reg_writable = True, reg_writes = []\<rparr>"
  have h: "reg_writable ?r" "stored ?r = []" by code_simp+
  from AssignAlias_prepends [OF h] h show ?thesis by blast
qed

text \<open>
  C8. \<^verbatim>\<open>main\<close> enumerates the modules before it looks at the command. When the
  enumeration finds no module, the \<^verbatim>\<open>ALIAS\<close> command ends with \<^verbatim>\<open>NO_DEVICES\<close>
  whatever its arguments are, and none of them is processed. When it finds one, the
  arguments are applied from the last to the first. When every one is an assignment or
  a removal, the aliases are listed afterwards. At the first argument (from the right)
  that is neither, the command ends with \<^verbatim>\<open>SYNTAX\<close>, the arguments to its left are
  not looked at, and what the arguments to its right did to the store stays.
\<close>

theorem main_alias_arguments:
  assumes "regex_alias cmd"
  shows "(drv_devices drv = [] \<longrightarrow>
            main drv prog (cmd # args) w =
              (NO_DEVICES,
               w\<lparr>w_calls := w_calls w @ [usb_relay_init, usb_relay_device_enumerate,
                                         usb_relay_exit],
                 w_cerr := w_cerr w @ ''No devices found''\<rparr>)) \<and>
         (drv_devices drv \<noteq> [] \<and> toks \<noteq> [] \<and> list_all alias_token toks \<longrightarrow>
            main drv prog (cmd # toks) w =
              (NONE,
               w\<lparr>w_reg := snd (ListAlias (foldr alias_apply toks (w_reg w))),
                 w_calls := w_calls w @ [usb_relay_init, usb_relay_device_enumerate,
                                         usb_relay_device_free_enumerate, usb_relay_exit],
                 w_cout := w_cout w @ fst (ListAlias (foldr alias_apply toks (w_reg w)))\<rparr>)) \<and>
         (drv_devices drv \<noteq> [] \<and> \<not> alias_token bad \<and> list_all alias_token post \<longrightarrow>
            main drv prog (cmd # pre @ bad # post) w =
              (SYNTAX,
               w\<lparr>w_reg := foldr alias_apply post (w_reg w),
                 w_calls := w_calls w @ [usb_relay_init, usb_relay_device_enumerate,
                                         usb_relay_device_free_enumerate, usb_relay_exit],
                 w_cerr := w_cerr w @ ''Syntax error''\<rparr>))"
proof -
  from assms(1) have c: "\<not> regex_help cmd" "\<not> regex_enumerate cmd"
    by (simp_all add: regex_alias_not_other)
  have none: "main drv prog (cmd # args) w =
              (NO_DEVICES,
               w\<lparr>w_calls := w_calls w @ [usb_relay_init, usb_relay_device_enumerate,
                                         usb_relay_exit],
                 w_cerr := w_cerr w @ ''No devices found''\<rparr>)"
    if "drv_devices drv = []"
    using c that by (rule main_enumeration_gate)
  have good: "main drv prog (cmd # toks) w =
              (NONE,
               w\<lparr>w_reg := snd (ListAlias (foldr alias_apply toks (w_reg w))),
                 w_calls := w_calls w @ [usb_relay_init, usb_relay_device_enumerate,
                                         usb_relay_device_free_enumerate, usb_relay_exit],
                 w_cout := w_cout w @ fst (ListAlias (foldr alias_apply toks (w_reg w)))\<rparr>)"
    if d: "drv_devices drv \<noteq> []" and t: "toks \<noteq> []" "list_all alias_token toks"
  proof -
    have "main_parse drv (cmd # toks) w =
            (locals_init, map (\<lambda>d. \<lparr>sn = fst d, channels = snd d\<rparr>) (drv_devices drv),
             w\<lparr>w_reg := snd (ListAlias (foldr alias_apply toks (w_reg w))),
               w_calls := w_calls w @ [usb_relay_init, usb_relay_device_enumerate,
                                       usb_relay_device_free_enumerate, usb_relay_exit],
               w_cout := w_cout w @ fst (ListAlias (foldr alias_apply toks (w_reg w)))\<rparr>)"
      using assms d c t
      by (simp add: main_parse_def Relays_Get_Sernums_def arg_loop_alias_all
          split_beta error_locals_init)
    then show ?thesis by (simp add: main_def locals_init_def)
  qed
  have stop: "main drv prog (cmd # pre @ bad # post) w =
              (SYNTAX,
               w\<lparr>w_reg := foldr alias_apply post (w_reg w),
                 w_calls := w_calls w @ [usb_relay_init, usb_relay_device_enumerate,
                                         usb_relay_device_free_enumerate, usb_relay_exit],
                 w_cerr := w_cerr w @ ''Syntax error''\<rparr>)"
    if d: "drv_devices drv \<noteq> []" and t: "\<not> alias_token bad" "list_all alias_token post"
  proof -
    have "main_parse drv (cmd # pre @ bad # post) w =
            (locals_init\<lparr>error := SYNTAX\<rparr>,
             map (\<lambda>d. \<lparr>sn = fst d, channels = snd d\<rparr>) (drv_devices drv),
             w\<lparr>w_reg := foldr alias_apply post (w_reg w),
               w_calls := w_calls w @ [usb_relay_init, usb_relay_device_enumerate,
                                       usb_relay_device_free_enumerate, usb_relay_exit]\<rparr>)"
      using assms d c arg_loop_alias_stop [OF t(2) t(1), of pre "w_reg w"]
      by (simp add: main_parse_def Relays_Get_Sernums_def)
    then show ?thesis by (simp add: main_def locals_init_def)
  qed
  from none good stop show ?thesis by blast
qed

theorem main_alias_arguments_witness:
  "regex_alias ''alias'' \<and> drv_devices \<lparr>drv_init_ok = True, drv_devices = [(''6QMBS'', 6), (''5XARZ'', 2)], drv_handles = [(''6QMBS'', 11), (''5XARZ'', 0)]\<rparr> \<noteq> [] \<and>
   list_all alias_token [''-#1'', ''#1=6QMBS''] \<and>
   main \<lparr>drv_init_ok = True, drv_devices = [(''6QMBS'', 6), (''5XARZ'', 2)], drv_handles = [(''6QMBS'', 11), (''5XARZ'', 0)]\<rparr> ''Relay.exe'' [''alias'', ''-#1'', ''#1=6QMBS''] \<lparr>w_reg = \<lparr>reg_value = None, reg_writable = True, reg_writes = []\<rparr>, w_calls = [], w_cout = [], w_cerr = []\<rparr> =
     (NONE,
      \<lparr>w_reg = \<lparr>reg_value = Some [], reg_writable = True,
                 reg_writes = [[], ''#1=6QMBS'', []]\<rparr>,
         w_calls = [usb_relay_init, usb_relay_device_enumerate, usb_relay_device_free_enumerate, usb_relay_exit],
         w_cout = ''No aliases defined'' @ [CHR 0x0A], w_cerr = []\<rparr>) \<and>
   \<not> alias_token ''bogus'' \<and> list_all alias_token [''+#2:5xarz''] \<and>
   main \<lparr>drv_init_ok = True, drv_devices = [(''6QMBS'', 6), (''5XARZ'', 2)], drv_handles = [(''6QMBS'', 11), (''5XARZ'', 0)]\<rparr> ''Relay.exe'' [''alias'', ''#1=6QMBS'', ''bogus'', ''+#2:5xarz''] \<lparr>w_reg = \<lparr>reg_value = None, reg_writable = True, reg_writes = []\<rparr>, w_calls = [], w_cout = [], w_cerr = []\<rparr> =
     (SYNTAX,
      \<lparr>w_reg = \<lparr>reg_value = Some ''#2=5XARZ'', reg_writable = True,
                 reg_writes = [''#2=5XARZ'', []]\<rparr>,
         w_calls = [usb_relay_init, usb_relay_device_enumerate, usb_relay_device_free_enumerate, usb_relay_exit],
         w_cout = [], w_cerr = ''Syntax error''\<rparr>) \<and>
   drv_devices \<lparr>drv_init_ok = True, drv_devices = [], drv_handles = []\<rparr> = [] \<and>
   main \<lparr>drv_init_ok = True, drv_devices = [], drv_handles = []\<rparr> ''Relay.exe'' [''alias'', ''-#1'', ''#1=6QMBS''] \<lparr>w_reg = \<lparr>reg_value = None, reg_writable = True, reg_writes = []\<rparr>, w_calls = [], w_cout = [], w_cerr = []\<rparr> =
     (NO_DEVICES,
      \<lparr>w_reg = \<lparr>reg_value = None, reg_writable = True, reg_writes = []\<rparr>,
         w_calls = [usb_relay_init, usb_relay_device_enumerate, usb_relay_exit],
         w_cout = [], w_cerr = ''No devices found''\<rparr>)"
proof -
  let ?d = "\<lparr>drv_init_ok = True, drv_devices = [(''6QMBS'', 6), (''5XARZ'', 2)], drv_handles = [(''6QMBS'', 11), (''5XARZ'', 0)]\<rparr>"
  let ?n = "\<lparr>drv_init_ok = True, drv_devices = [], drv_handles = []\<rparr>"
  let ?w = "\<lparr>w_reg = \<lparr>reg_value = None, reg_writable = True, reg_writes = []\<rparr>, w_calls = [], w_cout = [], w_cerr = []\<rparr>"
  have h: "regex_alias ''alias''" by code_simp
  have d: "drv_devices ?d \<noteq> []" and n: "drv_devices ?n = []" by code_simp+
  have g: "[''-#1'', ''#1=6QMBS''] \<noteq> [] \<and> list_all alias_token [''-#1'', ''#1=6QMBS'']"
    and b: "\<not> alias_token ''bogus'' \<and> list_all alias_token [''+#2:5xarz'']"
    by code_simp+
  have e1: "(NONE,
      ?w\<lparr>w_reg := snd (ListAlias (foldr alias_apply [''-#1'', ''#1=6QMBS''] (w_reg ?w))),
         w_calls := w_calls ?w @ [usb_relay_init, usb_relay_device_enumerate, usb_relay_device_free_enumerate, usb_relay_exit],
         w_cout := w_cout ?w @
           fst (ListAlias (foldr alias_apply [''-#1'', ''#1=6QMBS''] (w_reg ?w)))\<rparr>) =
     (NONE,
      \<lparr>w_reg = \<lparr>reg_value = Some [], reg_writable = True,
                 reg_writes = [[], ''#1=6QMBS'', []]\<rparr>,
         w_calls = [usb_relay_init, usb_relay_device_enumerate, usb_relay_device_free_enumerate, usb_relay_exit],
         w_cout = ''No aliases defined'' @ [CHR 0x0A], w_cerr = []\<rparr>)"
    by code_simp
  have e2: "(SYNTAX,
      ?w\<lparr>w_reg := foldr alias_apply [''+#2:5xarz''] (w_reg ?w),
         w_calls := w_calls ?w @ [usb_relay_init, usb_relay_device_enumerate, usb_relay_device_free_enumerate, usb_relay_exit],
         w_cerr := w_cerr ?w @ ''Syntax error''\<rparr>) =
     (SYNTAX,
      \<lparr>w_reg = \<lparr>reg_value = Some ''#2=5XARZ'', reg_writable = True,
                 reg_writes = [''#2=5XARZ'', []]\<rparr>,
         w_calls = [usb_relay_init, usb_relay_device_enumerate, usb_relay_device_free_enumerate, usb_relay_exit],
         w_cout = [], w_cerr = ''Syntax error''\<rparr>)"
    by code_simp
  have e3: "(NO_DEVICES,
      ?w\<lparr>w_calls := w_calls ?w @ [usb_relay_init, usb_relay_device_enumerate, usb_relay_exit],
         w_cerr := w_cerr ?w @ ''No devices found''\<rparr>) =
     (NO_DEVICES,
      \<lparr>w_reg = \<lparr>reg_value = None, reg_writable = True, reg_writes = []\<rparr>,
         w_calls = [usb_relay_init, usb_relay_device_enumerate, usb_relay_exit],
         w_cout = [], w_cerr = ''No devices found''\<rparr>)"
    by code_simp
  note t = main_alias_arguments [OF h]
  have m1: "main ?d ''Relay.exe'' [''alias'', ''-#1'', ''#1=6QMBS''] ?w =
     (NONE,
      \<lparr>w_reg = \<lparr>reg_value = Some [], reg_writable = True,
                 reg_writes = [[], ''#1=6QMBS'', []]\<rparr>,
         w_calls = [usb_relay_init, usb_relay_device_enumerate, usb_relay_device_free_enumerate, usb_relay_exit],
         w_cout = ''No aliases defined'' @ [CHR 0x0A], w_cerr = []\<rparr>)"
    using t [where drv = ?d and toks = "[''-#1'', ''#1=6QMBS'']" and prog = "''Relay.exe''"
        and w = ?w] d g
    unfolding e1 by blast
  have m2: "main ?d ''Relay.exe'' [''alias'', ''#1=6QMBS'', ''bogus'', ''+#2:5xarz''] ?w =
     (SYNTAX,
      \<lparr>w_reg = \<lparr>reg_value = Some ''#2=5XARZ'', reg_writable = True,
                 reg_writes = [''#2=5XARZ'', []]\<rparr>,
         w_calls = [usb_relay_init, usb_relay_device_enumerate, usb_relay_device_free_enumerate, usb_relay_exit],
         w_cout = [], w_cerr = ''Syntax error''\<rparr>)"
    using t [where drv = ?d and bad = "''bogus''" and post = "[''+#2:5xarz'']"
        and pre = "[''#1=6QMBS'']" and prog = "''Relay.exe''" and w = ?w] d b
    unfolding e2 by simp
  have m3: "main ?n ''Relay.exe'' [''alias'', ''-#1'', ''#1=6QMBS''] ?w =
     (NO_DEVICES,
      \<lparr>w_reg = \<lparr>reg_value = None, reg_writable = True, reg_writes = []\<rparr>,
         w_calls = [usb_relay_init, usb_relay_device_enumerate, usb_relay_exit],
         w_cout = [], w_cerr = ''No devices found''\<rparr>)"
    using t [where drv = ?n and args = "[''-#1'', ''#1=6QMBS'']" and prog = "''Relay.exe''"
        and w = ?w] n
    unfolding e3 by blast
  from h d n g b m1 m2 m3 show ?thesis by blast
qed

text \<open>
  C8 as stated fails when no module is attached: the arguments are not processed at
  all, the error is \<^verbatim>\<open>NO_DEVICES\<close> and not \<^verbatim>\<open>SYNTAX\<close>, and the assignment to the
  right of the bad argument is not applied.
\<close>

theorem main_alias_arguments_no_devices:
  "\<not> alias_token ''bogus'' \<and> alias_token ''#1=6QMBS'' \<and>
   main \<lparr>drv_init_ok = True, drv_devices = [], drv_handles = []\<rparr> ''Relay.exe'' [''alias'', ''bogus'', ''#1=6QMBS''] \<lparr>w_reg = \<lparr>reg_value = None, reg_writable = True, reg_writes = []\<rparr>, w_calls = [], w_cout = [], w_cerr = []\<rparr> =
     (NO_DEVICES,
      \<lparr>w_reg = \<lparr>reg_value = None, reg_writable = True, reg_writes = []\<rparr>,
         w_calls = [usb_relay_init, usb_relay_device_enumerate, usb_relay_exit],
         w_cout = [], w_cerr = ''No devices found''\<rparr>)"
  by code_simp

text \<open>
  C9. The \<^verbatim>\<open>ALIAS\<close> command without arguments. When the enumeration finds no module,
  it prints \<^verbatim>\<open>No devices found\<close> on the error stream and ends with exit code -2; the
  store is left as it was. When the enumeration finds a module and the
  persisted value is absent (and the registry can be written), it creates the value
  with the empty string, prints \<^verbatim>\<open>No aliases defined\<close> and ends with exit code 0.
\<close>

theorem main_alias_fresh_store:
  assumes "regex_alias cmd"
  shows "(drv_devices drv = [] \<longrightarrow>
            main drv prog [cmd] w =
              (NO_DEVICES,
               w\<lparr>w_calls := w_calls w @ [usb_relay_init, usb_relay_device_enumerate,
                                         usb_relay_exit],
                 w_cerr := w_cerr w @ ''No devices found''\<rparr>) \<and>
            error_int NO_DEVICES = - 2) \<and>
         (drv_devices drv \<noteq> [] \<and> reg_value (w_reg w) = None \<and> reg_writable (w_reg w) \<longrightarrow>
            main drv prog [cmd] w =
              (NONE,
               w\<lparr>w_reg := RegSetValueExW (w_reg w) [],
                 w_calls := w_calls w @ [usb_relay_init, usb_relay_device_enumerate,
                                         usb_relay_device_free_enumerate, usb_relay_exit],
                 w_cout := w_cout w @ ''No aliases defined'' @ [CHR 0x0A]\<rparr>) \<and>
            reg_value (RegSetValueExW (w_reg w) []) = Some [] \<and>
            reg_writes (RegSetValueExW (w_reg w) []) = [] # reg_writes (w_reg w) \<and>
            error_int NONE = 0)"
proof -
  from assms(1) have c: "\<not> regex_help cmd" "\<not> regex_enumerate cmd"
    by (simp_all add: regex_alias_not_other)
  have none: "main drv prog [cmd] w =
              (NO_DEVICES,
               w\<lparr>w_calls := w_calls w @ [usb_relay_init, usb_relay_device_enumerate,
                                         usb_relay_exit],
                 w_cerr := w_cerr w @ ''No devices found''\<rparr>)"
    if "drv_devices drv = []"
    using c that by (rule main_enumeration_gate)
  have fresh: "main drv prog [cmd] w =
              (NONE,
               w\<lparr>w_reg := RegSetValueExW (w_reg w) [],
                 w_calls := w_calls w @ [usb_relay_init, usb_relay_device_enumerate,
                                         usb_relay_device_free_enumerate, usb_relay_exit],
                 w_cout := w_cout w @ ''No aliases defined'' @ [CHR 0x0A]\<rparr>)"
    if d: "drv_devices drv \<noteq> []" and a: "reg_value (w_reg w) = None" "reg_writable (w_reg w)"
  proof -
    from a(1) have g: "RegGetValueW (w_reg w) = None"
      by (simp add: RegGetValueW_def)
    have l: "ListAlias (w_reg w) =
               (''No aliases defined'' @ [CHR 0x0A], RegSetValueExW (w_reg w) [])"
      using g a(2)
      by (simp add: ListAlias_def ReadRegSZ_def ListAlias_loop_None)
    have p: "main_parse drv [cmd] w =
               (locals_init, map (\<lambda>d. \<lparr>sn = fst d, channels = snd d\<rparr>) (drv_devices drv),
                w\<lparr>w_reg := RegSetValueExW (w_reg w) [],
                  w_calls := w_calls w @ [usb_relay_init, usb_relay_device_enumerate,
                                        usb_relay_device_free_enumerate, usb_relay_exit],
                  w_cout := w_cout w @ ''No aliases defined'' @ [CHR 0x0A]\<rparr>)"
      using assms d c l
      by (simp add: main_parse_def Relays_Get_Sernums_def)
    show ?thesis
      by (simp add: main_def p locals_init_def)
  qed
  have r: "reg_value (RegSetValueExW (w_reg w) []) = Some []"
    "reg_writes (RegSetValueExW (w_reg w) []) = [] # reg_writes (w_reg w)"
    by (simp_all add: RegSetValueExW_def)
  from none fresh r show ?thesis by simp
qed

theorem main_alias_fresh_store_witness:
  "regex_alias ''alias'' \<and> drv_devices \<lparr>drv_init_ok = True, drv_devices = [(''6QMBS'', 6), (''5XARZ'', 2)], drv_handles = [(''6QMBS'', 11), (''5XARZ'', 0)]\<rparr> \<noteq> [] \<and>
   reg_value (w_reg \<lparr>w_reg = \<lparr>reg_value = None, reg_writable = True, reg_writes = []\<rparr>, w_calls = [], w_cout = [], w_cerr = []\<rparr>) = None \<and> reg_writable (w_reg \<lparr>w_reg = \<lparr>reg_value = None, reg_writable = True, reg_writes = []\<rparr>, w_calls = [], w_cout = [], w_cerr = []\<rparr>) \<and>
   main \<lparr>drv_init_ok = True, drv_devices = [(''6QMBS'', 6), (''5XARZ'', 2)], drv_handles = [(''6QMBS'', 11), (''5XARZ'', 0)]\<rparr> ''Relay.exe'' [''alias''] \<lparr>w_reg = \<lparr>reg_value = None, reg_writable = True, reg_writes = []\<rparr>, w_calls = [], w_cout = [], w_cerr = []\<rparr> =
     (NONE,
      \<lparr>w_reg = \<lparr>reg_value = Some [], reg_writable = True, reg_writes = [[]]\<rparr>,
         w_calls = [usb_relay_init, usb_relay_device_enumerate, usb_relay_device_free_enumerate, usb_relay_exit],
         w_cout = ''No aliases defined'' @ [CHR 0x0A], w_cerr = []\<rparr>) \<and>
   drv_devices \<lparr>drv_init_ok = True, drv_devices = [], drv_handles = []\<rparr> = [] \<and>
   main \<lparr>drv_init_ok = True, drv_devices = [], drv_handles = []\<rparr> ''Relay.exe'' [''alias''] \<lparr>w_reg = \<lparr>reg_value = None, reg_writable = True, reg_writes = []\<rparr>, w_calls = [], w_cout = [], w_cerr = []\<rparr> =
     (NO_DEVICES,
      \<lparr>w_reg = \<lparr>reg_value = None, reg_writable = True, reg_writes = []\<rparr>,
         w_calls = [usb_relay_init, usb_relay_device_enumerate, usb_relay_exit],
         w_cout = [], w_cerr = ''No devices found''\<rparr>)"
proof -
  let ?d = "\<lparr>drv_init_ok = True, drv_devices = [(''6QMBS'', 6), (''5XARZ'', 2)], drv_handles = [(''6QMBS'', 11), (''5XARZ'', 0)]\<rparr>"
  let ?n = "\<lparr>drv_init_ok = True, drv_devices = [], drv_handles = []\<rparr>"
  let ?w = "\<lparr>w_reg = \<lparr>reg_value = None, reg_writable = True, reg_writes = []\<rparr>, w_calls = [], w_cout = [], w_cerr = []\<rparr>"
  have h: "regex_alias ''alias''" by code_simp
  have d: "drv_devices ?d \<noteq> []" and n: "drv_devices ?n = []" by code_simp+
  have r: "reg_value (w_reg ?w) = None" "reg_writable (w_reg ?w)" by code_simp+
  have e: "(NONE,
      ?w\<lparr>w_reg := RegSetValueExW (w_reg ?w) [],
         w_calls := w_calls ?w @ [usb_relay_init, usb_relay_device_enumerate, usb_relay_device_free_enumerate, usb_relay_exit],
         w_cout := w_cout ?w @ ''No aliases defined'' @ [CHR 0x0A]\<rparr>) =
     (NONE,
      \<lparr>w_reg = \<lparr>reg_value = Some [], reg_writable = True, reg_writes = [[]]\<rparr>,
         w_calls = [usb_relay_init, usb_relay_device_enumerate, usb_relay_device_free_enumerate, usb_relay_exit],
         w_cout = ''No aliases defined'' @ [CHR 0x0A], w_cerr = []\<rparr>)"
    by code_simp
  have e3: "(NO_DEVICES,
      ?w\<lparr>w_calls := w_calls ?w @ [usb_relay_init, usb_relay_device_enumerate, usb_relay_exit],
         w_cerr := w_cerr ?w @ ''No devices found''\<rparr>) =
     (NO_DEVICES,
      \<lparr>w_reg = \<lparr>reg_value = None, reg_writable = True, reg_writes = []\<rparr>,
         w_calls = [usb_relay_init, usb_relay_device_enumerate, usb_relay_exit],
         w_cout = [], w_cerr = ''No devices found''\<rparr>)"
    by code_simp
  note t = main_alias_fresh_store [OF h]
  have m1: "main ?d ''Relay.exe'' [''alias''] ?w =
     (NONE,
      \<lparr>w_reg = \<lparr>reg_value = Some [], reg_writable = True, reg_writes = [[]]\<rparr>,
         w_calls = [usb_relay_init, usb_relay_device_enumerate, usb_relay_device_free_enumerate, usb_relay_exit],
         w_cout = ''No aliases defined'' @ [CHR 0x0A], w_cerr = []\<rparr>)"
    using t [where drv = ?d and prog = "''Relay.exe''" and w = ?w] d r
    unfolding e by blast
  have m2: "main ?n ''Relay.exe'' [''alias''] ?w =
     (NO_DEVICES,
      \<lparr>w_reg = \<lparr>reg_value = None, reg_writable = True, reg_writes = []\<rparr>,
         w_calls = [usb_relay_init, usb_relay_device_enumerate, usb_relay_exit],
         w_cout = [], w_cerr = ''No devices found''\<rparr>)"
    using t [where drv = ?n and prog = "''Relay.exe''" and w = ?w] n
    unfolding e3 by blast
  from h d n r m1 m2 show ?thesis by blast
qed

text \<open>
  C9 as stated fails when no module is attached: nothing is listed, the value is not
  created, and the exit code is -2.
\<close>

theorem main_alias_no_devices:
  "main \<lparr>drv_init_ok = True, drv_devices = [], drv_handles = []\<rparr> ''Relay.exe'' [''alias''] \<lparr>w_reg = \<lparr>reg_value = None, reg_writable = True, reg_writes = []\<rparr>, w_calls = [], w_cout = [], w_cerr = []\<rparr> =
     (NO_DEVICES,
      \<lparr>w_reg = \<lparr>reg_value = None, reg_writable = True, reg_writes = []\<rparr>,
         w_calls = [usb_relay_init, usb_relay_device_enumerate, usb_relay_exit],
         w_cout = [], w_cerr = ''No devices found''\<rparr>) \<and>
   error_int NO_DEVICES = - 2"
  by code_simp

text \<open>
  C10. In a \<^verbatim>\<open>SET\<close> command, a \<^verbatim>\<open>CH=STATE\<close> argument with no device argument
  (serial number or alias, with or without a pattern) before it makes the command
  fail, with \<^verbatim>\<open>SYNTAX\<close> when the enumeration has found a module and with
  \<^verbatim>\<open>NO_DEVICES\<close> when it has not; the only driver calls are those of the
  enumeration, so no relay is set or cleared.
\<close>

theorem main_set_channel_before_device:
  assumes "regex_set cmd" and "regex_ch_set tok \<noteq> None"
    and "\<forall>t \<in> set pre. \<not> regex_alias_name t \<and> regex_sernum_pattern t = None"
  shows "main drv prog (cmd # pre @ tok # post) w =
           (if drv_devices drv = []
            then (NO_DEVICES,
                  w\<lparr>w_calls := w_calls w @ [usb_relay_init, usb_relay_device_enumerate,
                                            usb_relay_exit],
                    w_cerr := w_cerr w @ ''No devices found''\<rparr>)
            else (SYNTAX,
                  w\<lparr>w_calls := w_calls w @ [usb_relay_init, usb_relay_device_enumerate,
                                            usb_relay_device_free_enumerate, usb_relay_exit],
                    w_cerr := w_cerr w @ ''Syntax error''\<rparr>))"
proof -
  from assms(1) have c: "\<not> regex_help cmd" "\<not> regex_enumerate cmd" "\<not> regex_alias cmd"
    by (simp_all add: regex_set_not_other)
  obtain t0 rest where a: "pre @ tok # post = t0 # rest"
    by (cases pre) auto
  have "t0 = tok \<or> t0 \<in> set pre" using a by (cases pre) auto
  with assms(2,3) have nd: "\<not> regex_alias_name t0" "regex_sernum_pattern t0 = None"
    using regex_ch_set_not_device [of tok] by auto
  have loop: "arg_loop (set_arg chans) (t0 # rest) (locals_init, reg) =
              (locals_init\<lparr>error := SYNTAX\<rparr>, reg)" for chans reg
  proof -
    have "set_arg chans t0 (locals_init, reg) = (locals_init\<lparr>error := SYNTAX\<rparr>, reg)"
      using nd by (rule set_arg_no_device) (simp add: locals_init_def)
    then show ?thesis
      by (simp add: arg_loop_error) (simp add: locals_init_def)
  qed
  have "main_parse drv (cmd # t0 # rest) w =
          (if drv_devices drv = []
           then (locals_init\<lparr>error := NO_DEVICES\<rparr>, [],
                 w\<lparr>w_calls := w_calls w @ [usb_relay_init, usb_relay_device_enumerate,
                                           usb_relay_exit]\<rparr>)
           else (locals_init\<lparr>error := SYNTAX\<rparr>,
                 map (\<lambda>d. \<lparr>sn = fst d, channels = snd d\<rparr>) (drv_devices drv),
                 w\<lparr>w_calls := w_calls w @ [usb_relay_init, usb_relay_device_enumerate,
                                           usb_relay_device_free_enumerate, usb_relay_exit]\<rparr>))"
    using assms(1) c
    by (simp add: main_parse_def Relays_Get_Sernums_def loop del: arg_loop.simps)
  then show ?thesis
    unfolding a by (simp add: main_def locals_init_def)
qed

theorem main_set_channel_before_device_witness:
  "regex_set ''set'' \<and> regex_ch_set ''2=off'' \<noteq> None \<and>
   \<not> regex_alias_name ''1=ON'' \<and> regex_sernum_pattern ''1=ON'' = None \<and>
   main \<lparr>drv_init_ok = True, drv_devices = [(''6QMBS'', 6), (''5XARZ'', 2)], drv_handles = [(''6QMBS'', 11), (''5XARZ'', 0)]\<rparr> ''Relay.exe'' [''set'', ''1=ON'', ''2=off'', ''6QMBS''] \<lparr>w_reg = \<lparr>reg_value = None, reg_writable = True, reg_writes = []\<rparr>, w_calls = [], w_cout = [], w_cerr = []\<rparr> =
     (SYNTAX,
      \<lparr>w_reg = \<lparr>reg_value = None, reg_writable = True, reg_writes = []\<rparr>,
         w_calls = [usb_relay_init, usb_relay_device_enumerate, usb_relay_device_free_enumerate, usb_relay_exit],
         w_cout = [], w_cerr = ''Syntax error''\<rparr>)"
proof -
  let ?d = "\<lparr>drv_init_ok = True, drv_devices = [(''6QMBS'', 6), (''5XARZ'', 2)], drv_handles = [(''6QMBS'', 11), (''5XARZ'', 0)]\<rparr>"
  let ?w = "\<lparr>w_reg = \<lparr>reg_value = None, reg_writable = True, reg_writes = []\<rparr>, w_calls = [], w_cout = [], w_cerr = []\<rparr>"
  have h: "regex_set ''set''" "regex_ch_set ''2=off'' \<noteq> None"
    "\<forall>t \<in> set [''1=ON'']. \<not> regex_alias_name t \<and> regex_sernum_pattern t = None"
    by code_simp+
  have x: "\<not> regex_alias_name ''1=ON''" "regex_sernum_pattern ''1=ON'' = None"
    by code_simp+
  have e: "(if drv_devices ?d = []
            then (NO_DEVICES,
                  ?w\<lparr>w_calls := w_calls ?w @ [usb_relay_init, usb_relay_device_enumerate, usb_relay_exit],
                    w_cerr := w_cerr ?w @ ''No devices found''\<rparr>)
            else (SYNTAX,
                  ?w\<lparr>w_calls := w_calls ?w @ [usb_relay_init, usb_relay_device_enumerate, usb_relay_device_free_enumerate, usb_relay_exit],
                    w_cerr := w_cerr ?w @ ''Syntax error''\<rparr>)) =
     (SYNTAX,
      \<lparr>w_reg = \<lparr>reg_value = None, reg_writable = True, reg_writes = []\<rparr>,
         w_calls = [usb_relay_init, usb_relay_device_enumerate, usb_relay_device_free_enumerate, usb_relay_exit],
         w_cout = [], w_cerr = ''Syntax error''\<rparr>)"
    by code_simp
  from main_set_channel_before_device
         [OF h, where drv = ?d and prog = "''Relay.exe''" and post = "[''6QMBS'']" and w = ?w] have
    "main ?d ''Relay.exe'' [''set'', ''1=ON'', ''2=off'', ''6QMBS''] ?w =
     (SYNTAX,
      \<lparr>w_reg = \<lparr>reg_value = None, reg_writable = True, reg_writes = []\<rparr>,
         w_calls = [usb_relay_init, usb_relay_device_enumerate, usb_relay_device_free_enumerate, usb_relay_exit],
         w_cout = [], w_cerr = ''Syntax error''\<rparr>)"
    unfolding e by simp
  with h(1,2) x show ?thesis by blast
qed

text \<open>
  C10 as stated, always \<^verbatim>\<open>SYNTAX\<close>, fails when no module is attached: the command
  ends with \<^verbatim>\<open>NO_DEVICES\<close> before any argument is looked at.
\<close>

theorem main_set_channel_no_devices:
  "regex_ch_set ''1=ON'' \<noteq> None \<and>
   main \<lparr>drv_init_ok = True, drv_devices = [], drv_handles = []\<rparr> ''Relay.exe'' [''set'', ''1=ON'', ''6QMBS''] \<lparr>w_reg = \<lparr>reg_value = None, reg_writable = True, reg_writes = []\<rparr>, w_calls = [], w_cout = [], w_cerr = []\<rparr> =
     (NO_DEVICES,
      \<lparr>w_reg = \<lparr>reg_value = None, reg_writable = True, reg_writes = []\<rparr>,
         w_calls = [usb_relay_init, usb_relay_device_enumerate, usb_relay_exit],
         w_cout = [], w_cerr = ''No devices found''\<rparr>)"
  by code_simp

end
